theory Spec2Isabelle
  imports Main "HOL-Library.Word"
begin

unbundle bit_operations_syntax

section \<open>Data model (src/lib/types.ts)\<close>

text \<open>
  \<^verbatim>\<open>interface LocalHashes { [path: string]: string }\<close> is a JavaScript object used as
  a dictionary. It is modelled by the list of its entries in the order
  \<^verbatim>\<open>Object.entries\<close> enumerates them: an association list whose keys are pairwise
  different (\<open>distinct (map fst obj)\<close>). Reading an own property is \<open>obj_get\<close>.
  The assignment \<^verbatim>\<open>obj[k] = v\<close> of a string \<open>v\<close> is \<open>obj_set\<close>. For the key \<^verbatim>\<open>__proto__\<close>
  it calls the setter of \<^verbatim>\<open>Object.prototype\<close>, which ignores a value that is no object:
  the object stays as it is. For any other key it defines the own property (\<open>obj_put\<close>):
  an existing key keeps its position, a new key goes to the end. The order in which
  JavaScript enumerates integer-like keys (first, ascending) is outside the model; no
  property below depends on the order.
\<close>

type_synonym LocalHashes = "(string \<times> string) list"

definition obj_get :: "LocalHashes \<Rightarrow> string \<Rightarrow> string option" where
  "obj_get obj k = map_of obj k"

definition obj_keys :: "LocalHashes \<Rightarrow> string list" where
  "obj_keys obj = map fst obj"

primrec obj_put :: "LocalHashes \<Rightarrow> string \<Rightarrow> string \<Rightarrow> LocalHashes" where
  "obj_put [] k v = [(k, v)]"
| "obj_put (e # es) k v = (if fst e = k then (k, v) # es else e # obj_put es k v)"

definition obj_set :: "LocalHashes \<Rightarrow> string \<Rightarrow> string \<Rightarrow> LocalHashes" where
  "obj_set obj k v = (if k = ''__proto__'' then obj else obj_put obj k v)"

text \<open>
  The argument of \<^verbatim>\<open>findChangedFiles\<close> has the structural type
  \<^verbatim>\<open>{ path: string; hash: string }[]\<close>; \<^verbatim>\<open>ProjectFile\<close> and \<^verbatim>\<open>SyncResult\<close> extend it.
  The record \<open>Path\<close> only carries the field \<^verbatim>\<open>path\<close>, which the scanner's records
  have as well. The field \<^verbatim>\<open>size\<close> is named \<open>size_bytes\<close> (\<open>size\<close> is a constant of HOL).
\<close>

record Path =
  path :: string

record PathHash = Path +
  hash :: string

record ProjectFile = PathHash +
  size_bytes :: nat

record SyncResult = PathHash +
  compiled :: "bool option"
  errors :: "string list option"

section \<open>The reconciler (src/lib/project.ts, findChangedFiles)\<close>

text \<open>
  \<^verbatim>\<open>new Map(serverHashes.map((f) => [f.path, f.hash]))\<close>: the entries are set one after the
  other, so the last record of a path decides what \<^verbatim>\<open>get\<close> returns.
\<close>

definition new_Map :: "(string \<times> string) list \<Rightarrow> (string \<rightharpoonup> string)" where
  "new_Map kvs = fold (\<lambda>kv m. m(fst kv \<mapsto> snd kv)) kvs Map.empty"

text \<open>
  \<^verbatim>\<open>new Set(xs)\<close>: a value is added at the end unless it is already there, so iteration
  follows the first occurrences.
\<close>

definition set_add :: "'a list \<Rightarrow> 'a \<Rightarrow> 'a list" where
  "set_add s x = (if x \<in> set s then s else s @ [x])"

definition new_Set :: "'a list \<Rightarrow> 'a list" where
  "new_Set xs = fold (\<lambda>x s. set_add s x) xs []"

text \<open>
  \<^verbatim>\<open>!serverHash\<close> for a value of type \<^verbatim>\<open>string | undefined\<close>: true for \<^verbatim>\<open>undefined\<close>
  and for the empty string.
\<close>

fun falsy :: "string option \<Rightarrow> bool" where
  "falsy None = True"
| "falsy (Some s) = (s = [])"

text \<open>One round of the loop over \<^verbatim>\<open>Object.entries(localHashes)\<close>.\<close>

definition check_local :: "(string \<rightharpoonup> string) \<Rightarrow> string \<times> string \<Rightarrow> string list \<Rightarrow> string list" where
  "check_local serverHashMap e upload =
     (let localPath = fst e; localHash = snd e; serverHash = serverHashMap localPath in
      if falsy serverHash then upload @ [localPath]
      else if Some localHash \<noteq> serverHash then upload @ [localPath]
      else upload)"

text \<open>One round of the loop over \<^verbatim>\<open>serverPaths\<close>.\<close>

definition check_server :: "string list \<Rightarrow> string \<Rightarrow> string list \<Rightarrow> string list" where
  "check_server localPaths serverPath download =
     (if serverPath \<notin> set localPaths then download @ [serverPath] else download)"

text \<open>The value \<^verbatim>\<open>findChangedFiles\<close> returns.\<close>

record Changes =
  upload :: "string list"
  download :: "string list"
  delete :: "string list"

definition findChangedFiles :: "LocalHashes \<Rightarrow> ('a PathHash_scheme) list \<Rightarrow> Changes" where
  "findChangedFiles localHashes serverHashes =
     (let serverHashMap = new_Map (map (\<lambda>f. (path f, hash f)) serverHashes);
          localPaths = new_Set (obj_keys localHashes);
          serverPaths = new_Set (map path serverHashes);
          upload = fold (check_local serverHashMap) localHashes [];
          download = fold (check_server localPaths) serverPaths []
      in \<lparr> upload = upload, download = download, delete = [] \<rparr>)"



section \<open>The content hasher (src/lib/hash.ts)\<close>

text \<open>A \<^verbatim>\<open>Buffer\<close> is a list of bytes.\<close>

type_synonym byte = "8 word"
type_synonym Buffer = "byte list"

text \<open>
  \<^verbatim>\<open>`${n}`\<close> for a length \<open>n\<close>: the decimal digits, most significant first, no leading
  zero (a \<^verbatim>\<open>Buffer\<close> is far shorter than the \<open>10\<^sup>2\<^sup>1\<close> from which JavaScript prints
  an exponent).
\<close>

fun number_toString :: "nat \<Rightarrow> string" where
  "number_toString n =
     (if n < 10 then [char_of (48 + n)]
      else number_toString (n div 10) @ [char_of (48 + n mod 10)])"

declare number_toString.simps [simp del]

text \<open>
  \<^verbatim>\<open>Buffer.from(str)\<close> encodes the string as UTF-8. The header only has characters
  below 128, each of which is one byte, its code.
\<close>

definition Buffer_from :: "string \<Rightarrow> Buffer" where
  "Buffer_from str = map (\<lambda>c. of_nat (of_char c)) str"

text \<open>
  Modelled from the spec: the standard 160-bit message digest SHA-1 (FIPS 180-4), which
  \<^verbatim>\<open>crypto.createHash("sha1").update(store).digest()\<close> computes in Node's crypto module;
  its code is not part of the repository.
\<close>

definition sha1_pad :: "Buffer \<Rightarrow> Buffer" where
  "sha1_pad msg =
     (let n = length msg;
          bits = (word_of_nat (8 * n) :: 64 word)
      in msg @ [0x80] @ replicate ((119 - n mod 64) mod 64) 0 @
         map (\<lambda>i. ucast (drop_bit (8 * (7 - i)) bits)) [0 ..< 8])"

fun be_word32 :: "Buffer \<Rightarrow> 32 word" where
  "be_word32 [b0, b1, b2, b3] =
     push_bit 24 (ucast b0) OR push_bit 16 (ucast b1) OR push_bit 8 (ucast b2) OR ucast b3"
| "be_word32 _ = 0"

fun chunks :: "nat \<Rightarrow> 'a list \<Rightarrow> 'a list list" where
  "chunks k [] = []"
| "chunks k (x # xs) =
     (if k = 0 then [] else take k (x # xs) # chunks k (drop k (x # xs)))"

text \<open>The message schedule: sixteen words of the block, extended to eighty.\<close>

fun sha1_extend :: "nat \<Rightarrow> 32 word list \<Rightarrow> 32 word list" where
  "sha1_extend 0 ws = ws"
| "sha1_extend (Suc k) ws =
     (let t = length ws in
      sha1_extend k
        (ws @ [word_rotl 1 (ws ! (t - 3) XOR ws ! (t - 8) XOR ws ! (t - 14) XOR ws ! (t - 16))]))"

definition sha1_schedule :: "Buffer \<Rightarrow> 32 word list" where
  "sha1_schedule block = sha1_extend 64 (map be_word32 (chunks 4 block))"

type_synonym sha1_state = "32 word \<times> 32 word \<times> 32 word \<times> 32 word \<times> 32 word"

definition sha1_f :: "nat \<Rightarrow> 32 word \<Rightarrow> 32 word \<Rightarrow> 32 word \<Rightarrow> 32 word" where
  "sha1_f t b c d =
     (if t < 20 then (b AND c) OR (NOT b AND d)
      else if t < 40 then b XOR c XOR d
      else if t < 60 then (b AND c) OR (b AND d) OR (c AND d)
      else b XOR c XOR d)"

definition sha1_k :: "nat \<Rightarrow> 32 word" where
  "sha1_k t =
     (if t < 20 then 0x5A827999
      else if t < 40 then 0x6ED9EBA1
      else if t < 60 then 0x8F1BBCDC
      else 0xCA62C1D6)"

fun sha1_round :: "sha1_state \<Rightarrow> nat \<times> 32 word \<Rightarrow> sha1_state" where
  "sha1_round (a, b, c, d, e) (t, w) =
     (word_rotl 5 a + sha1_f t b c d + e + sha1_k t + w, a, word_rotl 30 b, c, d)"

fun sha1_add :: "sha1_state \<Rightarrow> sha1_state \<Rightarrow> sha1_state" where
  "sha1_add (a, b, c, d, e) (a', b', c', d', e') = (a + a', b + b', c + c', d + d', e + e')"

definition sha1_block :: "sha1_state \<Rightarrow> Buffer \<Rightarrow> sha1_state" where
  "sha1_block h block =
     sha1_add h (foldl sha1_round h (zip [0 ..< 80] (sha1_schedule block)))"

definition sha1_init :: sha1_state where
  "sha1_init = (0x67452301, 0xEFCDAB89, 0x98BADCFE, 0x10325476, 0xC3D2E1F0)"

definition be_bytes32 :: "32 word \<Rightarrow> Buffer" where
  "be_bytes32 w = [ucast (drop_bit 24 w), ucast (drop_bit 16 w), ucast (drop_bit 8 w), ucast w]"

fun sha1_output :: "sha1_state \<Rightarrow> Buffer" where
  "sha1_output (a, b, c, d, e) =
     be_bytes32 a @ be_bytes32 b @ be_bytes32 c @ be_bytes32 d @ be_bytes32 e"

definition sha1 :: "Buffer \<Rightarrow> Buffer" where
  "sha1 msg = sha1_output (foldl sha1_block sha1_init (chunks 64 (sha1_pad msg)))"

text \<open>\<^verbatim>\<open>digest("hex")\<close>: two lowercase hexadecimal digits for each byte.\<close>

definition hex_digit :: "nat \<Rightarrow> char" where
  "hex_digit n = ''0123456789abcdef'' ! (n mod 16)"

definition hex_byte :: "byte \<Rightarrow> string" where
  "hex_byte b = [hex_digit (unat b div 16), hex_digit (unat b mod 16)]"

definition digest_hex :: "Buffer \<Rightarrow> string" where
  "digest_hex bs = concat (map hex_byte bs)"

definition computeGitBlobHash :: "Buffer \<Rightarrow> string" where
  "computeGitBlobHash content =
     (let header = Buffer_from (''blob '' @ number_toString (length content) @ [CHR 0x00]);
          store = header @ content
      in digest_hex (sha1 store))"

text \<open>
  The fingerprint as section 4.1 of the specification words it: the ASCII text
  \<^verbatim>\<open>blob \<close>, the decimal byte-length, one NUL byte, then the content; SHA-1 over all of
  it; lowercase hexadecimal.
\<close>

fun decimal_digits :: "nat \<Rightarrow> nat list" where
  "decimal_digits n = (if n < 10 then [n] else decimal_digits (n div 10) @ [n mod 10])"

declare decimal_digits.simps [simp del]

definition spec_header :: "nat \<Rightarrow> Buffer" where
  "spec_header n =
     [0x62, 0x6C, 0x6F, 0x62, 0x20] @ map (\<lambda>d. 0x30 + of_nat d) (decimal_digits n) @ [0x00]"

definition spec_fingerprint :: "Buffer \<Rightarrow> string" where
  "spec_fingerprint content = digest_hex (sha1 (spec_header (length content) @ content))"

section \<open>The local tree scanner (src/lib/project.ts, getAllFiles and computeLocalHashes)\<close>

text \<open>
  The project directory is a tree: a directory is the list of its entries as
  \<^verbatim>\<open>fs.readdirSync(dir, { withFileTypes: true })\<close> returns them, each a name with a
  regular file (its bytes) or a directory. \<^verbatim>\<open>entry.isDirectory()\<close> is \<open>isDirectory\<close>.
  The tree holds what \<^verbatim>\<open>readdirSync\<close> and \<^verbatim>\<open>readFileSync\<close> return when they return: a
  directory or file that cannot be read makes them throw, which ends the scan, and is
  outside the model, as are symbolic links and special files.
\<close>

datatype node = File Buffer | Dir "(string \<times> node) list"

fun isDirectory :: "node \<Rightarrow> bool" where
  "isDirectory (Dir es) = True"
| "isDirectory (File c) = False"

text \<open>\<^verbatim>\<open>s.startsWith(p)\<close>, \<^verbatim>\<open>s.endsWith(p)\<close> and \<^verbatim>\<open>s.slice(0, -k)\<close> of JavaScript strings.\<close>

definition startsWith :: "string \<Rightarrow> string \<Rightarrow> bool" where
  "startsWith s p = (take (length p) s = p)"

definition endsWith :: "string \<Rightarrow> string \<Rightarrow> bool" where
  "endsWith s p = (length p \<le> length s \<and> drop (length s - length p) s = p)"

definition slice_to_minus :: "string \<Rightarrow> nat \<Rightarrow> string" where
  "slice_to_minus s k = take (length s - k) s"

text \<open>
  \<^verbatim>\<open>path.join\<close> of Node on POSIX. The arguments that are not empty are joined by the
  separator and the result is normalised: split at the separator, empty segments and
  \<^verbatim>\<open>.\<close> dropped, \<^verbatim>\<open>..\<close> taking back the segment before it (or kept, in a relative path,
  when there is none to take back), a leading and a trailing separator kept.
\<close>

primrec split_acc :: "string \<Rightarrow> string \<Rightarrow> string list" where
  "split_acc [] cur = [cur]"
| "split_acc (c # cs) cur =
     (if c = CHR ''/'' then cur # split_acc cs [] else split_acc cs (cur @ [c]))"

definition split_path :: "string \<Rightarrow> string list" where
  "split_path p = split_acc p []"

fun join_path :: "string list \<Rightarrow> string" where
  "join_path [] = []"
| "join_path [name] = name"
| "join_path (name # names) = name @ ''/'' @ join_path names"

definition norm_step :: "bool \<Rightarrow> string list \<Rightarrow> string \<Rightarrow> string list" where
  "norm_step allowAboveRoot res seg =
     (if seg = [] \<or> seg = ''.'' then res
      else if seg = ''..'' then
        (if res \<noteq> [] \<and> last res \<noteq> ''..'' then butlast res
         else if allowAboveRoot then res @ [''..''] else res)
      else res @ [seg])"

definition normalizeString :: "string \<Rightarrow> bool \<Rightarrow> string" where
  "normalizeString p allowAboveRoot =
     join_path (foldl (norm_step allowAboveRoot) [] (split_path p))"

definition normalize :: "string \<Rightarrow> string" where
  "normalize p =
     (if p = [] then ''.''
      else
        (let isAbsolute = (hd p = CHR ''/'');
             trailingSeparator = (last p = CHR ''/'');
             q = normalizeString p (\<not> isAbsolute)
         in if q = [] then (if isAbsolute then ''/'' else if trailingSeparator then ''./'' else ''.'')
            else (let q' = (if trailingSeparator then q @ ''/'' else q)
                  in if isAbsolute then CHR ''/'' # q' else q')))"

definition path_join :: "string \<Rightarrow> string \<Rightarrow> string" where
  "path_join a b =
     (let joined = (if a = [] then b else if b = [] then a else a @ ''/'' @ b)
      in if joined = [] then ''.'' else normalize joined)"

text \<open>\<^verbatim>\<open>basePath ? path.join(basePath, entry.name) : entry.name\<close>.\<close>

definition relativePath :: "string \<Rightarrow> string \<Rightarrow> string" where
  "relativePath basePath name = (if basePath \<noteq> [] then path_join basePath name else name)"

text \<open>
  \<^verbatim>\<open>fs.existsSync(fullPath.slice(0, -3) + ".ts")\<close>, reached only for a name that ends in
  \<^verbatim>\<open>.js\<close>: \<^verbatim>\<open>fullPath\<close> is \<^verbatim>\<open>path.join(dir, entry.name)\<close>, so the three characters cut
  off are the name's, and the path tested is that of the sibling in \<^verbatim>\<open>dir\<close> named by the
  rest of the name followed by \<^verbatim>\<open>.ts\<close>. It exists when \<^verbatim>\<open>dir\<close> has an entry of that name,
  of any kind. On a file system that compares names exactly, as those of Linux do, it
  exists only then; a file system that ignores case is outside the model.
\<close>

definition tsPath_exists :: "(string \<times> node) list \<Rightarrow> string \<Rightarrow> bool" where
  "tsPath_exists entries name = (slice_to_minus name 3 @ ''.ts'' \<in> set (map fst entries))"

text \<open>
  An element of the array \<^verbatim>\<open>getAllFiles\<close> returns, \<^verbatim>\<open>{ path, fullPath }\<close>. The only use
  of \<^verbatim>\<open>fullPath\<close> is \<^verbatim>\<open>fs.readFileSync(file.fullPath)\<close> in \<^verbatim>\<open>computeLocalHashes\<close>, so
  the model holds the bytes that call reads: the content of the file at \<^verbatim>\<open>fullPath\<close>.
\<close>

record FileRef = Path +
  fullPath_content :: Buffer

text \<open>
  The four tests of the loop body that end in \<^verbatim>\<open>continue\<close>, under the names of the
  comments above them in the source.
\<close>

definition skip_hidden :: "string \<Rightarrow> bool" where
  "skip_hidden name = (startsWith name ''.'' \<and> name \<noteq> ''.gitignore'')"

definition skip_types :: "string \<Rightarrow> node \<Rightarrow> bool" where
  "skip_types name nd = (name = ''types'' \<and> isDirectory nd)"

definition skip_node_modules :: "string \<Rightarrow> bool" where
  "skip_node_modules name = (name = ''node_modules'')"

definition skip_compiled_js :: "(string \<times> node) list \<Rightarrow> string \<Rightarrow> bool" where
  "skip_compiled_js entries name = (endsWith name ''.js'' \<and> tsPath_exists entries name)"

text \<open>
  The loop \<^verbatim>\<open>for (const entry of entries)\<close> of \<^verbatim>\<open>getAllFiles\<close>: \<open>entries\<close> is the whole
  directory (the existence test looks at it), the second argument what is left of the
  loop. The tests are in the order of the source; each \<^verbatim>\<open>continue\<close> goes on with the
  rest.
\<close>

fun getAllFiles_loop :: "(string \<times> node) list \<Rightarrow> (string \<times> node) list \<Rightarrow> string \<Rightarrow> FileRef list" where
  "getAllFiles_loop entries [] basePath = []"
| "getAllFiles_loop entries ((name, nd) # rest) basePath =
     (if skip_hidden name then getAllFiles_loop entries rest basePath
      else if skip_types name nd then getAllFiles_loop entries rest basePath
      else if skip_node_modules name then getAllFiles_loop entries rest basePath
      else if skip_compiled_js entries name then getAllFiles_loop entries rest basePath
      else (case nd of
              Dir sub \<Rightarrow>
                getAllFiles_loop sub sub (relativePath basePath name) @
                getAllFiles_loop entries rest basePath
            | File c \<Rightarrow>
                \<lparr> path = relativePath basePath name, fullPath_content = c \<rparr> #
                getAllFiles_loop entries rest basePath))"

definition getAllFiles :: "(string \<times> node) list \<Rightarrow> string \<Rightarrow> FileRef list" where
  "getAllFiles dir basePath = getAllFiles_loop dir dir basePath"

definition computeLocalHashes :: "(string \<times> node) list \<Rightarrow> LocalHashes" where
  "computeLocalHashes projectDir =
     fold (\<lambda>file hashes. obj_set hashes (path file) (computeGitBlobHash (fullPath_content file)))
       (getAllFiles projectDir []) []"

section \<open>The sync command (src/commands/sync.ts, sync)\<close>

text \<open>The calls of \<^verbatim>\<open>logger\<close> (src/utils/logger.ts), in the order they are made.\<close>

datatype log_line =
  Logger_success string
| Logger_error string
| Logger_warn string
| Logger_dim string

text \<open>
  What one run of \<^verbatim>\<open>sync\<close> finds outside itself. A call that can throw is a sum: \<open>Inl\<close>
  holds the message of the \<^verbatim>\<open>Error\<close>.
  \<^item> \<open>isLoggedIn\<close>, \<open>isProjectDir\<close>: the two guards. \<open>getLocalProject\<close>: the \<^verbatim>\<open>id\<close> of the
    project record, \<open>None\<close> for \<^verbatim>\<open>null\<close>.
  \<^item> \<open>getProjectFiles\<close>: the server manifest, \<^verbatim>\<open>data.files\<close> of the reply, taken to be
    the array of records the signature declares. \<open>projectDir\<close>: the directory scanned.
  \<^item> \<open>syncFilesToServer\<close>: the answer to the batch upload, \<^verbatim>\<open>data.updated\<close>.
  \<^item> \<open>download_ok\<close>: for a path, whether the body of the \<^verbatim>\<open>try\<close> in the download loop
    (\<^verbatim>\<open>getProjectFile\<close>, \<^verbatim>\<open>mkdirSync\<close>, \<^verbatim>\<open>writeFileSync\<close>) runs without throwing.
  \<^item> \<open>types_ok\<close>: whether the type definitions are fetched and written without throwing.
  \<^item> \<open>saveLocalHashes_throws\<close>, \<open>updateConfig_throws\<close>: the error, if any, of
    \<^verbatim>\<open>saveLocalHashes\<close> and of \<^verbatim>\<open>updateGitignore\<close> / \<^verbatim>\<open>updateTsConfig\<close>.
  The scan and the reads of the files to upload are taken not to throw.
\<close>

record World =
  isLoggedIn :: bool
  isProjectDir :: bool
  getLocalProject :: "string option"
  getProjectFiles :: "string + ProjectFile list"
  projectDir :: "(string \<times> node) list"
  syncFilesToServer :: "string + SyncResult list"
  download_ok :: "string \<Rightarrow> bool"
  types_ok :: bool
  saveLocalHashes_throws :: "string option"
  updateConfig_throws :: "string option"

text \<open>
  What a run leaves behind: the exit code (\<open>1\<close> for \<^verbatim>\<open>process.exit(1)\<close>, \<open>0\<close> when \<^verbatim>\<open>sync\<close>
  returns), the log, the paths \<^verbatim>\<open>getProjectFile\<close> was called with, and the mapping
  \<^verbatim>\<open>saveLocalHashes\<close> wrote to \<^verbatim>\<open>hashes.json\<close> (\<open>None\<close> when nothing was written).
\<close>

record Outcome =
  exit_code :: nat
  logged :: "log_line list"
  requested :: "string list"
  saved :: "LocalHashes option"

text \<open>The body of \<^verbatim>\<open>for (const result of results)\<close>.\<close>

definition apply_result :: "SyncResult \<Rightarrow> LocalHashes \<times> log_line list \<Rightarrow> LocalHashes \<times> log_line list" where
  "apply_result result st =
     (let localHashes = obj_set (fst st) (path result) (hash result);
          warnings =
            (case errors result of
               Some errs \<Rightarrow>
                 if length errs > 0
                 then Logger_warn (''Compilation warnings for '' @ path result @ '':'') #
                      map (\<lambda>err. Logger_dim (''  '' @ err)) errs
                 else []
             | None \<Rightarrow> [])
      in (localHashes, snd st @ warnings))"

text \<open>
  The upload block. A failed request leaves the \<^verbatim>\<open>try\<close>: \<open>Inl\<close> with the message.
\<close>

definition upload_phase :: "World \<Rightarrow> string list \<Rightarrow> LocalHashes \<Rightarrow> string + LocalHashes \<times> log_line list" where
  "upload_phase w to_upload localHashes =
     (if length to_upload > 0 then
        (case syncFilesToServer w of
           Inl msg \<Rightarrow> Inl msg
         | Inr results \<Rightarrow>
             (let st = fold apply_result results (localHashes, []) in
              Inr (fst st,
                   snd st @
                   [Logger_success (''Uploaded '' @ number_toString (length to_upload) @ '' files'')] @
                   map (\<lambda>file. Logger_dim (''  + '' @ file)) to_upload)))
      else Inr (localHashes, []))"

text \<open>
  The body of \<^verbatim>\<open>for (const filePath of changes.download)\<close>: the state is the mapping,
  the log and the paths requested so far.
\<close>

definition download_one ::
  "World \<Rightarrow> ProjectFile list \<Rightarrow> string \<Rightarrow> LocalHashes \<times> log_line list \<times> string list \<Rightarrow>
   LocalHashes \<times> log_line list \<times> string list" where
  "download_one w serverFiles filePath st =
     (let localHashes = fst st; logs = fst (snd st); reqs = snd (snd st) in
      if download_ok w filePath then
        (case find (\<lambda>f. path f = filePath) serverFiles of
           Some serverFile \<Rightarrow> (obj_set localHashes filePath (hash serverFile), logs, reqs @ [filePath])
         | None \<Rightarrow> (localHashes, logs, reqs @ [filePath]))
      else (localHashes, logs @ [Logger_warn (''Could not download: '' @ filePath)], reqs @ [filePath]))"

definition download_phase ::
  "World \<Rightarrow> ProjectFile list \<Rightarrow> string list \<Rightarrow> LocalHashes \<Rightarrow> LocalHashes \<times> log_line list \<times> string list" where
  "download_phase w serverFiles to_download localHashes =
     (if length to_download > 0 then
        (let st = fold (download_one w serverFiles) to_download (localHashes, [], []) in
         (fst st,
          fst (snd st) @
          [Logger_success (''Downloaded '' @ number_toString (length to_download) @ '' files'')] @
          map (\<lambda>file. Logger_dim (''  + '' @ file)) to_download,
          snd (snd st)))
      else (localHashes, [], []))"

text \<open>
  From the type definitions to the end: the warning of the inner \<^verbatim>\<open>catch\<close>, then
  \<^verbatim>\<open>saveLocalHashes\<close>, \<^verbatim>\<open>updateGitignore\<close>, \<^verbatim>\<open>updateTsConfig\<close>, each of which may leave the
  outer \<^verbatim>\<open>try\<close>.
\<close>

definition finish :: "World \<Rightarrow> LocalHashes \<Rightarrow> log_line list \<Rightarrow> string list \<Rightarrow> Outcome" where
  "finish w localHashes logs reqs =
     (let logs1 = (if types_ok w then logs else logs @ [Logger_warn ''Could not update type definitions''])
      in case saveLocalHashes_throws w of
           Some msg \<Rightarrow>
             \<lparr> exit_code = 1, logged = logs1 @ [Logger_error msg], requested = reqs, saved = None \<rparr>
         | None \<Rightarrow>
             (case updateConfig_throws w of
                Some msg \<Rightarrow>
                  \<lparr> exit_code = 1, logged = logs1 @ [Logger_error msg], requested = reqs,
                    saved = Some localHashes \<rparr>
              | None \<Rightarrow>
                  \<lparr> exit_code = 0, logged = logs1 @ [Logger_success ''Sync complete''],
                    requested = reqs, saved = Some localHashes \<rparr>))"

text \<open>
  The \<^verbatim>\<open>try\<close> block of \<^verbatim>\<open>sync\<close> once the manifest is there. With nothing to upload and
  nothing to download the command returns before anything is saved.
\<close>

definition sync_files :: "World \<Rightarrow> ProjectFile list \<Rightarrow> Outcome" where
  "sync_files w serverFiles =
     (let localHashes = computeLocalHashes (projectDir w);
          changes = findChangedFiles localHashes serverFiles
      in if length (upload changes) = 0 \<and> length (download changes) = 0 then
           \<lparr> exit_code = 0, logged = [Logger_success ''Already up to date''], requested = [],
             saved = None \<rparr>
         else
           (case upload_phase w (upload changes) localHashes of
              Inl msg \<Rightarrow> \<lparr> exit_code = 1, logged = [Logger_error msg], requested = [], saved = None \<rparr>
            | Inr up \<Rightarrow>
                (let down = download_phase w serverFiles (download changes) (fst up) in
                 finish w (fst down) (snd up @ fst (snd down)) (snd (snd down)))))"

text \<open>
  \<^verbatim>\<open>getLocalProject()!\<close> may be \<^verbatim>\<open>null\<close>; then \<^verbatim>\<open>project.id\<close>, inside the \<^verbatim>\<open>try\<close>, throws
  a \<^verbatim>\<open>TypeError\<close>, whose message (that of V8) is logged like any other.
\<close>

definition sync :: "World \<Rightarrow> Outcome" where
  "sync w =
     (if \<not> isLoggedIn w then
        \<lparr> exit_code = 1, logged = [Logger_error ''Not logged in. Run 'xgodo login' first.''],
          requested = [], saved = None \<rparr>
      else if \<not> isProjectDir w then
        \<lparr> exit_code = 1,
          logged = [Logger_error ''Not in a project directory. Run 'xgodo clone' first.''],
          requested = [], saved = None \<rparr>
      else
        (case getLocalProject w of
           None \<Rightarrow>
             \<lparr> exit_code = 1,
               logged = [Logger_error ''Cannot read properties of null (reading 'id')''],
               requested = [], saved = None \<rparr>
         | Some project_id \<Rightarrow>
             (case getProjectFiles w of
                Inl msg \<Rightarrow>
                  \<lparr> exit_code = 1, logged = [Logger_error msg], requested = [], saved = None \<rparr>
              | Inr serverFiles \<Rightarrow> sync_files w serverFiles)))"

section \<open>Notions used to state the properties\<close>

text \<open>
  When the loop over the local entries pushes a path: the server lookup has no usable
  fingerprint for it, or has a different one.
\<close>

definition needs_upload :: "(string \<rightharpoonup> string) \<Rightarrow> string \<times> string \<Rightarrow> bool" where
  "needs_upload m e = (falsy (m (fst e)) \<or> Some (snd e) \<noteq> m (fst e))"

text \<open>
  The exclusion rules as the scanner applies them, in words: a name that starts with
  \<^verbatim>\<open>.\<close> other than \<^verbatim>\<open>.gitignore\<close>; a directory named \<^verbatim>\<open>types\<close>; any entry named
  \<^verbatim>\<open>node_modules\<close>; any entry whose name ends in \<^verbatim>\<open>.js\<close> when the directory has an entry
  of the same base name with the extension \<^verbatim>\<open>.ts\<close>.
\<close>

definition excluded :: "(string \<times> node) list \<Rightarrow> string \<Rightarrow> node \<Rightarrow> bool" where
  "excluded entries name nd =
     ((startsWith name ''.'' \<and> name \<noteq> ''.gitignore'') \<or>
      (name = ''types'' \<and> isDirectory nd) \<or>
      name = ''node_modules'' \<or>
      (endsWith name ''.js'' \<and> slice_to_minus name 3 @ ''.ts'' \<in> fst ` set entries))"

text \<open>
  The exclusion rules in the words of the specification: \<^verbatim>\<open>node_modules\<close> as a
  directory, and the rule on \<^verbatim>\<open>.js\<close> for a file with a sibling \<^verbatim>\<open>.ts\<close> file.
\<close>

definition claim_excluded :: "(string \<times> node) list \<Rightarrow> string \<Rightarrow> node \<Rightarrow> bool" where
  "claim_excluded entries name nd =
     ((startsWith name ''.'' \<and> name \<noteq> ''.gitignore'') \<or>
      (name = ''types'' \<and> isDirectory nd) \<or>
      (name = ''node_modules'' \<and> isDirectory nd) \<or>
      (\<not> isDirectory nd \<and> endsWith name ''.js'' \<and>
       (\<exists>c \<in> set entries. fst c = slice_to_minus name 3 @ ''.ts'' \<and> \<not> isDirectory (snd c))))"

text \<open>
  The file a list of names leads to, from a directory downwards, under exclusion rules
  \<open>ex\<close>: every name is an entry of the directory reached so far and is not excluded
  there (an excluded directory is not entered), and the last one is a regular file,
  whose content is the result.
\<close>

fun tracked_by ::
  "((string \<times> node) list \<Rightarrow> string \<Rightarrow> node \<Rightarrow> bool) \<Rightarrow> (string \<times> node) list \<Rightarrow> string list \<Rightarrow> Buffer option" where
  "tracked_by ex entries [] = None"
| "tracked_by ex entries (name # names) =
     (case map_of entries name of
        None \<Rightarrow> None
      | Some nd \<Rightarrow>
          if ex entries name nd then None
          else (case nd of
                  File c \<Rightarrow> if names = [] then Some c else None
                | Dir sub \<Rightarrow> tracked_by ex sub names))"

text \<open>
  What holds of every directory \<^verbatim>\<open>readdirSync\<close> lists: the names in one directory are
  pairwise different, not empty and without a separator.
\<close>

fun wf_node :: "node \<Rightarrow> bool" and wf_entries :: "(string \<times> node) list \<Rightarrow> bool" where
  "wf_node (File c) = True"
| "wf_node (Dir entries) = (distinct (map fst entries) \<and> wf_entries entries)"
| "wf_entries [] = True"
| "wf_entries (e # entries) =
     (fst e \<noteq> [] \<and> CHR ''/'' \<notin> set (fst e) \<and> wf_node (snd e) \<and> wf_entries entries)"

text \<open>Names that \<^verbatim>\<open>path.join\<close> leaves as they are.\<close>

definition names_ok :: "string list \<Rightarrow> bool" where
  "names_ok ns = (\<forall>n \<in> set ns. n \<noteq> [] \<and> CHR ''/'' \<notin> set n \<and> n \<noteq> ''.'' \<and> n \<noteq> ''..'')"

text \<open>The scan as pairs of path and content; the file below a node.\<close>

definition scanned :: "(string \<times> node) list \<Rightarrow> (string \<times> node) list \<Rightarrow> string \<Rightarrow> (string \<times> Buffer) list" where
  "scanned E rest b = map (\<lambda>f. (path f, fullPath_content f)) (getAllFiles_loop E rest b)"

definition tracked_node :: "node \<Rightarrow> string list \<Rightarrow> Buffer option" where
  "tracked_node nd ns =
     (case nd of File c \<Rightarrow> if ns = [] then Some c else None | Dir sub \<Rightarrow> tracked_by excluded sub ns)"

text \<open>Two project directories for the examples.\<close>

definition tree_js_dir :: "(string \<times> node) list" where
  "tree_js_dir = [(''x.js'', Dir [(''m.txt'', File [])]), (''x.ts'', File [1])]"

definition tree_example :: "(string \<times> node) list" where
  "tree_example =
     [(''.gitignore'', File []), (''.env'', File []), (''a.ts'', File [1]), (''a.js'', File [2]),
      (''b.js'', File [2]), (''src'', Dir [(''m.ts'', File [3])])]"

text \<open>
  What one round of the download loop does to the mapping, and the warning it logs for
  a path that fails.
\<close>

definition download_hash :: "World \<Rightarrow> ProjectFile list \<Rightarrow> string \<Rightarrow> LocalHashes \<Rightarrow> LocalHashes" where
  "download_hash w serverFiles filePath localHashes =
     (if download_ok w filePath then
        (case find (\<lambda>f. path f = filePath) serverFiles of
           Some serverFile \<Rightarrow> obj_set localHashes filePath (hash serverFile)
         | None \<Rightarrow> localHashes)
      else localHashes)"

definition download_warning :: "string \<Rightarrow> log_line" where
  "download_warning filePath = Logger_warn (''Could not download: '' @ filePath)"

text \<open>
  Two runs for the examples. The project has one local file, \<^verbatim>\<open>a.ts\<close>; the server has
  \<^verbatim>\<open>lib.ts\<close> and \<^verbatim>\<open>gone.ts\<close>; the answer to the upload names \<^verbatim>\<open>a.ts\<close> and the \<^verbatim>\<open>a.js\<close>
  compiled from it. In the first run the download of \<^verbatim>\<open>gone.ts\<close> fails, in the second
  every download succeeds.
\<close>

definition world_example :: World where
  "world_example =
     \<lparr> isLoggedIn = True, isProjectDir = True, getLocalProject = Some ''p1'',
       getProjectFiles = Inr [\<lparr> path = ''lib.ts'', hash = ''h1'', size_bytes = 7 \<rparr>,
                              \<lparr> path = ''gone.ts'', hash = ''h2'', size_bytes = 9 \<rparr>],
       projectDir = [(''a.ts'', File [])],
       syncFilesToServer =
         Inr [\<lparr> path = ''a.ts'', hash = ''h3'', compiled = Some True, errors = None \<rparr>,
              \<lparr> path = ''a.js'', hash = ''h4'', compiled = None, errors = None \<rparr>],
       download_ok = (\<lambda>p. p \<noteq> ''gone.ts''), types_ok = True,
       saveLocalHashes_throws = None, updateConfig_throws = None \<rparr>"

definition world_all_ok :: World where
  "world_all_ok = world_example \<lparr> download_ok := (\<lambda>p. True) \<rparr>"

section \<open>Properties of the reconciler\<close>

lemma fold_map_upd: "fold (\<lambda>kv m. m(fst kv \<mapsto> snd kv)) kvs m0 = m0 ++ map_of (rev kvs)"
  by (induction kvs arbitrary: m0) (auto simp: map_add_upd_left fun_eq_iff map_add_def split: option.splits)

lemma new_Map_eq: "new_Map kvs = map_of (rev kvs)"
  by (simp add: new_Map_def fold_map_upd)

lemma new_Map_None: "new_Map (map (\<lambda>f. (path f, hash f)) fs) p = None \<longleftrightarrow> p \<notin> set (map path fs)"
  by (simp add: new_Map_eq map_of_eq_None_iff image_image)

lemma fold_set_add_set: "set (fold (\<lambda>x s. set_add s x) xs s) = set s \<union> set xs"
  by (induction xs arbitrary: s) (auto simp: set_add_def)

lemma fold_set_add_distinct: "distinct s \<Longrightarrow> distinct (fold (\<lambda>x s. set_add s x) xs s)"
  by (induction xs arbitrary: s) (auto simp: set_add_def)

lemma set_new_Set: "set (new_Set xs) = set xs"
  by (simp add: new_Set_def fold_set_add_set)

lemma distinct_new_Set: "distinct (new_Set xs)"
  by (simp add: new_Set_def fold_set_add_distinct)

lemma fold_check_local:
  "fold (check_local m) es acc = acc @ map fst (filter (needs_upload m) es)"
  by (induction es arbitrary: acc) (auto simp: check_local_def needs_upload_def Let_def)

lemma fold_check_server:
  "fold (check_server lp) ps acc = acc @ filter (\<lambda>p. p \<notin> set lp) ps"
  by (induction ps arbitrary: acc) (auto simp: check_server_def)

lemma upload_eq:
  "upload (findChangedFiles l s) =
     map fst (filter (needs_upload (new_Map (map (\<lambda>f. (path f, hash f)) s))) l)"
  by (simp add: findChangedFiles_def Let_def fold_check_local)

lemma download_eq:
  "download (findChangedFiles l s) = filter (\<lambda>p. p \<notin> set (obj_keys l)) (new_Set (map path s))"
  by (simp add: findChangedFiles_def Let_def fold_check_server set_new_Set)

lemma delete_eq: "delete (findChangedFiles l s) = []"
  by (simp add: findChangedFiles_def Let_def)

lemma set_download: "set (download (findChangedFiles l s)) = set (map path s) - set (obj_keys l)"
  by (auto simp: download_eq set_new_Set)

lemma set_upload_subset: "set (upload (findChangedFiles l s)) \<subseteq> set (obj_keys l)"
  by (auto simp: upload_eq obj_keys_def)

lemma in_upload_iff:
  "p \<in> set (upload (findChangedFiles l s)) \<longleftrightarrow>
     (\<exists>h. (p, h) \<in> set l \<and> needs_upload (new_Map (map (\<lambda>f. (path f, hash f)) s)) (p, h))"
  by (force simp: upload_eq)

lemma obj_get_iff: "distinct (obj_keys l) \<Longrightarrow> obj_get l p = Some h \<longleftrightarrow> (p, h) \<in> set l"
  by (simp add: obj_get_def obj_keys_def)

text \<open>
  Claim C1. For every local mapping (an object: keys pairwise different; its values
  fingerprints, none of which is the empty string) and every server file list: a local
  path the server lookup has no entry for is in \<open>upload\<close>; a local path whose fingerprint
  differs from the server lookup's is in \<open>upload\<close>; a local path whose fingerprint equals
  the server lookup's is in neither \<open>upload\<close> nor \<open>download\<close>; a server path that is no key
  of the local mapping is in \<open>download\<close>. The server lookup is that of the \<^verbatim>\<open>Map\<close>: the
  last record of a path.
\<close>

theorem findChangedFiles_classification:
  "distinct (obj_keys localHashes) \<Longrightarrow> \<forall>e \<in> set localHashes. snd e \<noteq> [] \<Longrightarrow>
   (obj_get localHashes p = Some h \<and> new_Map (map (\<lambda>f. (path f, hash f)) serverHashes) p = None
      \<longrightarrow> p \<in> set (upload (findChangedFiles localHashes serverHashes))) \<and>
   (obj_get localHashes p = Some h \<and> new_Map (map (\<lambda>f. (path f, hash f)) serverHashes) p = Some sh \<and> sh \<noteq> h
      \<longrightarrow> p \<in> set (upload (findChangedFiles localHashes serverHashes))) \<and>
   (obj_get localHashes p = Some h \<and> new_Map (map (\<lambda>f. (path f, hash f)) serverHashes) p = Some h
      \<longrightarrow> p \<notin> set (upload (findChangedFiles localHashes serverHashes)) \<and>
          p \<notin> set (download (findChangedFiles localHashes serverHashes))) \<and>
   (q \<in> set (map path serverHashes) \<and> q \<notin> set (obj_keys localHashes)
      \<longrightarrow> q \<in> set (download (findChangedFiles localHashes serverHashes)))"
proof -
  assume d: "distinct (obj_keys localHashes)" and ne: "\<forall>e \<in> set localHashes. snd e \<noteq> []"
  let ?m = "new_Map (map (\<lambda>f. (path f, hash f)) serverHashes)"
  let ?r = "findChangedFiles localHashes serverHashes"
  have uniq: "\<And>h'. obj_get localHashes p = Some h \<Longrightarrow> (p, h') \<in> set localHashes \<Longrightarrow> h' = h"
    using d by (simp add: obj_get_def obj_keys_def)
  have mem: "obj_get localHashes p = Some h \<Longrightarrow> (p, h) \<in> set localHashes"
    by (simp add: obj_get_def map_of_SomeD)
  have nonempty: "obj_get localHashes p = Some h \<Longrightarrow> h \<noteq> []"
    using mem ne by force
  have a: "obj_get localHashes p = Some h \<and> ?m p = None \<longrightarrow> p \<in> set (upload ?r)"
    using mem by (auto simp: in_upload_iff needs_upload_def)
  have b: "obj_get localHashes p = Some h \<and> ?m p = Some sh \<and> sh \<noteq> h \<longrightarrow> p \<in> set (upload ?r)"
    using mem by (auto simp: in_upload_iff needs_upload_def)
  have c1: "obj_get localHashes p = Some h \<and> ?m p = Some h \<longrightarrow> p \<notin> set (upload ?r)"
    using uniq nonempty by (auto simp: in_upload_iff needs_upload_def)
  have c2: "obj_get localHashes p = Some h \<longrightarrow> p \<notin> set (download ?r)"
    using mem by (force simp: set_download obj_keys_def)
  have f: "q \<in> set (map path serverHashes) \<and> q \<notin> set (obj_keys localHashes) \<longrightarrow> q \<in> set (download ?r)"
    by (simp add: set_download)
  from a b c1 c2 f show ?thesis by blast
qed

text \<open>
  The example of section 8 of the specification: local \<open>{a: h1, b: h2}\<close>, server
  \<open>[{a, h1}, {c, h3}]\<close>.
\<close>

theorem findChangedFiles_classification_witness:
  "distinct (obj_keys [(''a'', ''h1''), (''b'', ''h2'')]) \<and>
   ''a'' \<notin> set (upload (findChangedFiles [(''a'', ''h1''), (''b'', ''h2'')]
       [\<lparr>path = ''a'', hash = ''h1''\<rparr>, \<lparr>path = ''c'', hash = ''h3''\<rparr>])) \<and>
   ''b'' \<in> set (upload (findChangedFiles [(''a'', ''h1''), (''b'', ''h2'')]
       [\<lparr>path = ''a'', hash = ''h1''\<rparr>, \<lparr>path = ''c'', hash = ''h3''\<rparr>])) \<and>
   ''c'' \<in> set (download (findChangedFiles [(''a'', ''h1''), (''b'', ''h2'')]
       [\<lparr>path = ''a'', hash = ''h1''\<rparr>, \<lparr>path = ''c'', hash = ''h3''\<rparr>]))"
  using findChangedFiles_classification [of "[(''a'', ''h1''), (''b'', ''h2'')]" "''a''" "''h1''"
              "[\<lparr>path = ''a'', hash = ''h1''\<rparr>, \<lparr>path = ''c'', hash = ''h3''\<rparr>]" "''x''" "''c''"]
        findChangedFiles_classification [of "[(''a'', ''h1''), (''b'', ''h2'')]" "''b''" "''h2''"
              "[\<lparr>path = ''a'', hash = ''h1''\<rparr>, \<lparr>path = ''c'', hash = ''h3''\<rparr>]" "''x''" "''c''"]
  by (simp add: obj_keys_def obj_get_def new_Map_def)

text \<open>
  Claim C4. The \<open>delete\<close> list of \<open>findChangedFiles\<close> is empty for every local mapping and
  server list, and a path of the server list that is no key of the local mapping is in
  \<open>download\<close>, not in \<open>delete\<close>.
\<close>

theorem findChangedFiles_delete_empty:
  "delete (findChangedFiles localHashes serverHashes) = [] \<and>
   (p \<in> set (map path serverHashes) \<and> p \<notin> set (obj_keys localHashes) \<longrightarrow>
      p \<in> set (download (findChangedFiles localHashes serverHashes)) \<and>
      p \<notin> set (delete (findChangedFiles localHashes serverHashes)))"
  by (simp add: delete_eq set_download)

theorem findChangedFiles_delete_empty_witness:
  "delete (findChangedFiles [(''a'', ''h1'')] [\<lparr>path = ''c'', hash = ''h3''\<rparr>]) = [] \<and>
   ''c'' \<in> set (download (findChangedFiles [(''a'', ''h1'')] [\<lparr>path = ''c'', hash = ''h3''\<rparr>])) \<and>
   ''c'' \<notin> set (delete (findChangedFiles [(''a'', ''h1'')] [\<lparr>path = ''c'', hash = ''h3''\<rparr>]))"
  using findChangedFiles_delete_empty [of "[(''a'', ''h1'')]" "[\<lparr>path = ''c'', hash = ''h3''\<rparr>]" "''c''"]
  by (simp add: obj_keys_def)

text \<open>
  Claim C5. No path is in both \<open>upload\<close> and \<open>download\<close> of one call of
  \<open>findChangedFiles\<close>.
\<close>

theorem findChangedFiles_upload_download_disjoint:
  "set (upload (findChangedFiles localHashes serverHashes)) \<inter>
   set (download (findChangedFiles localHashes serverHashes)) = {}"
  using set_upload_subset [of localHashes serverHashes]
  by (auto simp: set_download)





text \<open>
  Claim C9. For a local mapping (an object: keys pairwise different) and any server
  list, also one with several records of one path, neither \<open>upload\<close> nor \<open>download\<close> has
  a path twice.
\<close>

theorem findChangedFiles_no_duplicates:
  "distinct (obj_keys localHashes) \<Longrightarrow>
   distinct (upload (findChangedFiles localHashes serverHashes)) \<and>
   distinct (download (findChangedFiles localHashes serverHashes))"
  by (simp add: upload_eq download_eq distinct_new_Set obj_keys_def distinct_map_filter)

theorem findChangedFiles_no_duplicates_witness:
  "distinct (obj_keys [(''a'', ''h1''), (''b'', ''h2'')]) \<and>
   distinct (upload (findChangedFiles [(''a'', ''h1''), (''b'', ''h2'')]
      [\<lparr>path = ''c'', hash = ''h3''\<rparr>, \<lparr>path = ''c'', hash = ''h4''\<rparr>])) \<and>
   distinct (download (findChangedFiles [(''a'', ''h1''), (''b'', ''h2'')]
      [\<lparr>path = ''c'', hash = ''h3''\<rparr>, \<lparr>path = ''c'', hash = ''h4''\<rparr>]))"
  using findChangedFiles_no_duplicates [of "[(''a'', ''h1''), (''b'', ''h2'')]"
      "[\<lparr>path = ''c'', hash = ''h3''\<rparr>, \<lparr>path = ''c'', hash = ''h4''\<rparr>]"]
  by (simp add: obj_keys_def)

section \<open>Properties of the scanner\<close>

lemma endsWith_js_not_ts: "endsWith name ''.js'' \<Longrightarrow> name \<noteq> x @ ''.ts''"
  by (auto simp: endsWith_def)

lemma tsPath_exists_remove:
  "endsWith name ''.js'' \<Longrightarrow>
   tsPath_exists (es1 @ (name, nd) # es2) m = tsPath_exists (es1 @ es2) m"
  using endsWith_js_not_ts [of name "slice_to_minus m 3"]
  by (auto simp: tsPath_exists_def)

lemma loop_context_cong:
  "(\<And>m. m \<in> fst ` set rest \<Longrightarrow> skip_compiled_js E m = skip_compiled_js E' m) \<Longrightarrow>
   getAllFiles_loop E rest b = getAllFiles_loop E' rest b"
proof (induction rest)
  case Nil
  then show ?case by simp
next
  case (Cons e rest)
  obtain n nd where e: "e = (n, nd)" by (cases e)
  have t: "skip_compiled_js E n = skip_compiled_js E' n"
    using Cons.prems [of n] e by simp
  have r: "getAllFiles_loop E rest b = getAllFiles_loop E' rest b"
    using Cons.IH Cons.prems by simp
  show ?case unfolding e by (simp add: t r split: node.splits)
qed

lemma loop_skip_middle:
  "skip_hidden n \<or> skip_types n nd \<or> skip_node_modules n \<or> skip_compiled_js E n \<Longrightarrow>
   getAllFiles_loop E (es1 @ (n, nd) # es2) b = getAllFiles_loop E (es1 @ es2) b"
proof (induction es1)
  case Nil
  then show ?case by auto
next
  case (Cons e es1)
  obtain m md where e: "e = (m, md)" by (cases e)
  show ?case unfolding e using Cons by (simp split: node.splits)
qed

text \<open>
  Claim C10. The test for compiled output comes before the distinction between
  directory and file: an entry whose name ends in \<^verbatim>\<open>.js\<close>, with a sibling path of the same
  base name and the extension \<^verbatim>\<open>.ts\<close>, is skipped whatever it is, and the scan of the
  directory is the scan of the directory without that entry: a directory of that name
  contributes none of the files beneath it.
\<close>

theorem getAllFiles_compiled_js_skipped:
  "endsWith name ''.js'' \<and> tsPath_exists entries name \<Longrightarrow>
   getAllFiles_loop entries ((name, nd) # rest) basePath = getAllFiles_loop entries rest basePath \<and>
   (entries = es1 @ (name, nd) # es2 \<longrightarrow> getAllFiles entries basePath = getAllFiles (es1 @ es2) basePath)"
proof -
  assume h: "endsWith name ''.js'' \<and> tsPath_exists entries name"
  then have s: "skip_compiled_js entries name" by (simp add: skip_compiled_js_def)
  have a: "getAllFiles_loop entries ((name, nd) # rest) basePath = getAllFiles_loop entries rest basePath"
    using s by simp
  have b: "getAllFiles entries basePath = getAllFiles (es1 @ es2) basePath"
    if e: "entries = es1 @ (name, nd) # es2"
  proof -
    have "getAllFiles entries basePath = getAllFiles_loop entries (es1 @ es2) basePath"
      unfolding getAllFiles_def using s loop_skip_middle [of name nd entries es1 es2 basePath] e by simp
    also have "\<dots> = getAllFiles_loop (es1 @ es2) (es1 @ es2) basePath"
      using h unfolding e
      by (intro loop_context_cong) (simp add: skip_compiled_js_def tsPath_exists_remove)
    finally show ?thesis by (simp add: getAllFiles_def)
  qed
  from a b show ?thesis by blast
qed

theorem getAllFiles_compiled_js_skipped_witness:
  "endsWith ''x.js'' ''.js'' \<and>
   tsPath_exists [(''x.js'', Dir [(''m.txt'', File [])]), (''x.ts'', File [1])] ''x.js'' \<and>
   getAllFiles [(''x.js'', Dir [(''m.txt'', File [])]), (''x.ts'', File [1])] [] =
   getAllFiles [(''x.ts'', File [1])] []"
  using getAllFiles_compiled_js_skipped
    [of "''x.js''" "[(''x.js'', Dir [(''m.txt'', File [])]), (''x.ts'', File [1])]"
        "Dir [(''m.txt'', File [])]" "[]" "[]" "[]" "[(''x.ts'', File [1])]"]
  by (simp add: endsWith_def tsPath_exists_def slice_to_minus_def)

lemma map_of_obj_put: "map_of (obj_put h k v) = (map_of h)(k \<mapsto> v)"
  by (induction h) (auto simp: fun_eq_iff)

lemma map_of_obj_set:
  "map_of (obj_set h k v) = (if k = ''__proto__'' then map_of h else (map_of h)(k \<mapsto> v))"
  by (simp add: obj_set_def map_of_obj_put)

lemma map_of_fold_obj_set:
  "map_of (fold (\<lambda>f h. obj_set h (kf f) (vf f)) fs h0) =
   map_of h0 ++
   map_of (rev (filter (\<lambda>kv. fst kv \<noteq> ''__proto__'') (map (\<lambda>f. (kf f, vf f)) fs)))"
proof (induction fs arbitrary: h0)
  case Nil
  then show ?case by simp
next
  case (Cons f fs)
  show ?case
    by (simp add: Cons.IH map_of_obj_set fun_eq_iff map_add_def split: option.splits)
qed

lemma keys_obj_put: "set (map fst (obj_put h k v)) = insert k (set (map fst h))"
  by (induction h) auto

lemma distinct_obj_put: "distinct (map fst h) \<Longrightarrow> distinct (map fst (obj_put h k v))"
proof (induction h)
  case Nil
  then show ?case by simp
next
  case (Cons e h)
  then show ?case using keys_obj_put [of h k v] by auto
qed

lemma distinct_obj_set: "distinct (map fst h) \<Longrightarrow> distinct (map fst (obj_set h k v))"
  by (simp add: obj_set_def distinct_obj_put)

lemma distinct_fold_obj_set:
  "distinct (map fst h0) \<Longrightarrow> distinct (map fst (fold (\<lambda>f h. obj_set h (kf f) (vf f)) fs h0))"
  by (induction fs arbitrary: h0) (simp_all add: distinct_obj_set)

lemma excluded_iff:
  "excluded E n nd \<longleftrightarrow> skip_hidden n \<or> skip_types n nd \<or> skip_node_modules n \<or> skip_compiled_js E n"
  by (simp add: excluded_def skip_hidden_def skip_types_def skip_node_modules_def
        skip_compiled_js_def tsPath_exists_def)

lemma scanned_Nil: "scanned E [] b = []"
  by (simp add: scanned_def)

lemma scanned_Cons:
  "scanned E ((n, nd) # rest) b =
     (if excluded E n nd then scanned E rest b
      else (case nd of
              Dir sub \<Rightarrow> scanned sub sub (relativePath b n) @ scanned E rest b
            | File c \<Rightarrow> (relativePath b n, c) # scanned E rest b))"
  by (auto simp: scanned_def excluded_iff split: node.splits)

lemma tracked_unfold:
  assumes "distinct (map fst es)"
  shows "(\<exists>ns. tracked_by excluded es ns = Some c \<and> p = foldl relativePath b ns) \<longleftrightarrow>
         (\<exists>n nd ns'. (n, nd) \<in> set es \<and> \<not> excluded es n nd \<and> tracked_node nd ns' = Some c \<and>
             p = foldl relativePath (relativePath b n) ns')"
    (is "?L \<longleftrightarrow> ?R")
proof
  assume ?L
  then obtain ns where t: "tracked_by excluded es ns = Some c" and p: "p = foldl relativePath b ns"
    by blast
  from t obtain n ns' where ns: "ns = n # ns'" by (cases ns) auto
  from t ns obtain nd where m: "map_of es n = Some nd"
    by (auto split: option.splits)
  from t ns m have ne: "\<not> excluded es n nd" and tn: "tracked_node nd ns' = Some c"
    by (auto simp: tracked_node_def split: if_splits)
  from m have "(n, nd) \<in> set es" by (rule map_of_SomeD)
  with ne tn p ns show ?R by auto
next
  assume ?R
  then obtain n nd ns' where mem: "(n, nd) \<in> set es" and ne: "\<not> excluded es n nd"
    and tn: "tracked_node nd ns' = Some c" and p: "p = foldl relativePath (relativePath b n) ns'"
    by blast
  from mem assms have "map_of es n = Some nd" by simp
  with ne tn have "tracked_by excluded es (n # ns') = Some c"
    by (simp add: tracked_node_def)
  with p show ?L by (intro exI [of _ "n # ns'"]) simp
qed

lemma wf_entries_mem:
  "wf_entries es \<Longrightarrow> (n, nd) \<in> set es \<Longrightarrow> n \<noteq> [] \<and> CHR ''/'' \<notin> set n \<and> wf_node nd"
  by (induction es) auto

lemma wf_entries_all: "wf_entries es \<Longrightarrow> \<forall>e \<in> set es. wf_node (snd e)"
  by (induction es) auto

lemma scanned_mem:
  "(\<forall>e \<in> set rest. wf_node (snd e)) \<Longrightarrow>
   (p, c) \<in> set (scanned E rest b) \<longleftrightarrow>
     (\<exists>n nd ns. (n, nd) \<in> set rest \<and> \<not> excluded E n nd \<and> tracked_node nd ns = Some c \<and>
        p = foldl relativePath (relativePath b n) ns)"
proof (induction E rest b arbitrary: p c rule: getAllFiles_loop.induct)
  case (1 entries basePath)
  then show ?case by (simp add: scanned_Nil)
next
  case (2 entries name nd rest basePath)
  have wfr: "\<forall>e \<in> set rest. wf_node (snd e)" and wfn: "wf_node nd"
    using "2.prems" by auto
  let ?Q = "\<lambda>n nd ns. \<not> excluded entries n nd \<and> tracked_node nd ns = Some c \<and>
        p = foldl relativePath (relativePath basePath n) ns"
  have split: "(\<exists>n nd' ns. (n, nd') \<in> set ((name, nd) # rest) \<and> ?Q n nd' ns) \<longleftrightarrow>
     (\<exists>ns. ?Q name nd ns) \<or> (\<exists>n nd' ns. (n, nd') \<in> set rest \<and> ?Q n nd' ns)"
    by auto
  show ?case
  proof (cases "excluded entries name nd")
    case True
    then have sk: "skip_hidden name \<or> skip_types name nd \<or> skip_node_modules name \<or>
        skip_compiled_js entries name"
      by (simp add: excluded_iff)
    have ih: "(p, c) \<in> set (scanned entries rest basePath) \<longleftrightarrow>
        (\<exists>n nd' ns. (n, nd') \<in> set rest \<and> ?Q n nd' ns)"
      using sk "2.IH"(1) [OF _ wfr] "2.IH"(2) [OF _ _ wfr] "2.IH"(3) [OF _ _ _ wfr]
        "2.IH"(4) [OF _ _ _ _ wfr]
      by blast
    show ?thesis unfolding split using True ih by (simp add: scanned_Cons)
  next
    case False
    then have nsk: "\<not> skip_hidden name" "\<not> skip_types name nd" "\<not> skip_node_modules name"
        "\<not> skip_compiled_js entries name"
      by (simp_all add: excluded_iff)
    show ?thesis
    proof (cases nd)
      case (File c')
      have ih: "(p, c) \<in> set (scanned entries rest basePath) \<longleftrightarrow>
          (\<exists>n nd' ns. (n, nd') \<in> set rest \<and> ?Q n nd' ns)"
        using "2.IH"(5) [OF nsk File wfr] .
      have here: "(\<exists>ns. ?Q name nd ns) \<longleftrightarrow> p = relativePath basePath name \<and> c = c'"
        using False File by (auto simp: tracked_node_def)
      show ?thesis unfolding split using False File ih here by (auto simp: scanned_Cons)
    next
      case (Dir sub)
      have ih: "(p, c) \<in> set (scanned entries rest basePath) \<longleftrightarrow>
          (\<exists>n nd' ns. (n, nd') \<in> set rest \<and> ?Q n nd' ns)"
        using "2.IH"(7) [OF nsk Dir wfr] .
      have wfs: "\<forall>e \<in> set sub. wf_node (snd e)" and ds: "distinct (map fst sub)"
        using wfn Dir wf_entries_all [of sub] by auto
      have "(p, c) \<in> set (scanned sub sub (relativePath basePath name)) \<longleftrightarrow>
          (\<exists>n nd' ns. (n, nd') \<in> set sub \<and> \<not> excluded sub n nd' \<and> tracked_node nd' ns = Some c \<and>
             p = foldl relativePath (relativePath (relativePath basePath name) n) ns)"
        using "2.IH"(6) [OF nsk Dir wfs] .
      also have "\<dots> \<longleftrightarrow> (\<exists>ns. tracked_by excluded sub ns = Some c \<and>
             p = foldl relativePath (relativePath basePath name) ns)"
        using tracked_unfold [OF ds, of c p "relativePath basePath name"] by simp
      finally have sub: "(p, c) \<in> set (scanned sub sub (relativePath basePath name)) \<longleftrightarrow>
          (\<exists>ns. ?Q name nd ns)"
        using False Dir by (simp add: tracked_node_def)
      show ?thesis unfolding split using False Dir ih sub by (auto simp: scanned_Cons)
    qed
  qed
qed

lemma scanned_root:
  assumes "wf_node (Dir root)"
  shows "(p, c) \<in> set (scanned root root []) \<longleftrightarrow>
         (\<exists>ns. tracked_by excluded root ns = Some c \<and> p = foldl relativePath [] ns)"
proof -
  from assms have d: "distinct (map fst root)" and w: "\<forall>e \<in> set root. wf_node (snd e)"
    using wf_entries_all [of root] by auto
  show ?thesis
    using scanned_mem [OF w, of p c root "[]"] tracked_unfold [OF d, of c p "[]"] by simp
qed

lemma not_excluded_not_dots: "\<not> excluded es n nd \<Longrightarrow> n \<noteq> ''.'' \<and> n \<noteq> ''..''"
  by (auto simp: excluded_def startsWith_def)

lemma tracked_names_ok:
  "wf_node (Dir es) \<Longrightarrow> tracked_by excluded es ns = Some c \<Longrightarrow> names_ok ns"
proof (induction ns arbitrary: es)
  case Nil
  then show ?case by (simp add: names_ok_def)
next
  case (Cons n ns)
  from Cons.prems(2) obtain nd where m: "map_of es n = Some nd"
    by (auto split: option.splits)
  then have mem: "(n, nd) \<in> set es" by (rule map_of_SomeD)
  with Cons.prems(1) have n: "n \<noteq> [] \<and> CHR ''/'' \<notin> set n" and wn: "wf_node nd"
    using wf_entries_mem [of es n nd] by auto
  from Cons.prems(2) m have ne: "\<not> excluded es n nd" by (auto split: if_splits)
  have "names_ok ns"
  proof (cases nd)
    case (File c')
    with Cons.prems(2) m have "ns = []" by (auto split: if_splits)
    then show ?thesis by (simp add: names_ok_def)
  next
    case (Dir sub)
    with Cons.prems(2) m have "tracked_by excluded sub ns = Some c" by (auto split: if_splits)
    with Cons.IH [of sub] wn Dir show ?thesis by simp
  qed
  with n not_excluded_not_dots [OF ne] show ?case by (simp add: names_ok_def)
qed

lemma join_path_Cons:
  "join_path (n # ns) = n @ (if ns = [] then [] else CHR ''/'' # join_path ns)"
  by (cases ns) auto

lemma join_path_snoc: "ns \<noteq> [] \<Longrightarrow> join_path (ns @ [n]) = join_path ns @ CHR ''/'' # n"
  by (induction ns) (auto simp: join_path_Cons)

lemma split_acc_segment:
  "CHR ''/'' \<notin> set n \<Longrightarrow> split_acc (n @ CHR ''/'' # rest) cur = (cur @ n) # split_acc rest []"
  by (induction n arbitrary: cur) auto

lemma split_acc_last: "CHR ''/'' \<notin> set n \<Longrightarrow> split_acc n cur = [cur @ n]"
  by (induction n arbitrary: cur) auto

lemma split_join_path: "names_ok ns \<Longrightarrow> ns \<noteq> [] \<Longrightarrow> split_path (join_path ns) = ns"
proof (induction ns)
  case Nil
  then show ?case by simp
next
  case (Cons n ns)
  have n: "CHR ''/'' \<notin> set n" and ok: "names_ok ns"
    using Cons.prems(1) by (simp_all add: names_ok_def)
  show ?case
  proof (cases "ns = []")
    case True
    then show ?thesis using n by (simp add: split_path_def split_acc_last)
  next
    case False
    with Cons.IH ok have "split_acc (join_path ns) [] = ns" by (simp add: split_path_def)
    with False n show ?thesis
      by (simp add: split_path_def join_path_Cons split_acc_segment)
  qed
qed

lemma foldl_norm_step: "names_ok ns \<Longrightarrow> foldl (norm_step a) acc ns = acc @ ns"
  by (induction ns arbitrary: acc) (simp_all add: names_ok_def norm_step_def)

lemma join_path_ends:
  "names_ok ns \<Longrightarrow> ns \<noteq> [] \<Longrightarrow>
   join_path ns \<noteq> [] \<and> hd (join_path ns) \<noteq> CHR ''/'' \<and> last (join_path ns) \<noteq> CHR ''/''"
proof (induction ns)
  case Nil
  then show ?case by simp
next
  case (Cons n ns)
  have n: "n \<noteq> []" "CHR ''/'' \<notin> set n" and ok: "names_ok ns"
    using Cons.prems(1) by (simp_all add: names_ok_def)
  from n have h: "hd n \<noteq> CHR ''/''" and l: "last n \<noteq> CHR ''/''"
    by (metis hd_in_set, metis last_in_set)
  show ?case
  proof (cases "ns = []")
    case True
    then show ?thesis using n h l by simp
  next
    case False
    with Cons.IH ok show ?thesis using n h by (simp add: join_path_Cons)
  qed
qed

lemma normalize_join_path: "names_ok ns \<Longrightarrow> ns \<noteq> [] \<Longrightarrow> normalize (join_path ns) = join_path ns"
  using join_path_ends [of ns]
  by (simp add: normalize_def normalizeString_def split_join_path foldl_norm_step Let_def)

lemma relativePath_join_path:
  "names_ok (ns @ [n]) \<Longrightarrow> ns \<noteq> [] \<Longrightarrow> relativePath (join_path ns) n = join_path (ns @ [n])"
proof -
  assume ok: "names_ok (ns @ [n])" and ne: "ns \<noteq> []"
  then have okn: "names_ok ns" and n: "n \<noteq> []" by (simp_all add: names_ok_def)
  have j: "join_path ns \<noteq> []" using join_path_ends [OF okn ne] by simp
  have "path_join (join_path ns) n = normalize (join_path (ns @ [n]))"
    using j n ne by (simp add: path_join_def join_path_snoc Let_def)
  also have "\<dots> = join_path (ns @ [n])"
    using ok by (intro normalize_join_path) simp_all
  finally show ?thesis using j by (simp add: relativePath_def)
qed

lemma foldl_relativePath:
  "names_ok (ms @ ns) \<Longrightarrow> ms \<noteq> [] \<Longrightarrow>
   foldl relativePath (join_path ms) ns = join_path (ms @ ns)"
proof (induction ns arbitrary: ms)
  case Nil
  then show ?case by simp
next
  case (Cons n ns)
  have "names_ok (ms @ [n])" using Cons.prems(1) by (simp add: names_ok_def)
  then have "relativePath (join_path ms) n = join_path (ms @ [n])"
    using Cons.prems(2) by (rule relativePath_join_path)
  then show ?case
    using Cons.IH [of "ms @ [n]"] Cons.prems(1) by simp
qed

lemma foldl_relativePath_root: "names_ok ns \<Longrightarrow> foldl relativePath [] ns = join_path ns"
proof (cases ns)
  case Nil
  then show ?thesis by simp
next
  case (Cons n ns')
  assume ok: "names_ok ns"
  have "relativePath [] n = join_path [n]" by (simp add: relativePath_def)
  then show ?thesis
    using Cons ok foldl_relativePath [of "[n]" ns'] by simp
qed

lemma takeWhile_segment: "x \<notin> set n \<Longrightarrow> takeWhile (\<lambda>c. c \<noteq> x) (n @ x # l) = n"
  by (induction n) auto

lemma segment_unique:
  assumes "CHR ''/'' \<notin> set n" "CHR ''/'' \<notin> set m"
    and "r = [] \<or> hd r = CHR ''/''" "s = [] \<or> hd s = CHR ''/''"
    and "n @ r = m @ s"
  shows "n = m \<and> r = s"
proof -
  have "takeWhile (\<lambda>c. c \<noteq> CHR ''/'') (n @ r) = n"
    using assms(1,3) takeWhile_segment [of "CHR ''/''" n "tl r"] by (cases r) auto
  moreover have "takeWhile (\<lambda>c. c \<noteq> CHR ''/'') (m @ s) = m"
    using assms(2,4) takeWhile_segment [of "CHR ''/''" m "tl s"] by (cases s) auto
  ultimately have "n = m" using assms(5) by simp
  with assms(5) show ?thesis by simp
qed

lemma join_path_inj:
  "names_ok ns \<Longrightarrow> names_ok ms \<Longrightarrow> join_path ns = join_path ms \<Longrightarrow> ns = ms"
proof (induction ns arbitrary: ms)
  case Nil
  then show ?case by (cases ms) (auto simp: names_ok_def join_path_Cons)
next
  case (Cons n ns)
  show ?case
  proof (cases ms)
    case Nil
    with Cons.prems show ?thesis by (auto simp: names_ok_def join_path_Cons)
  next
    case (Cons m ms')
    let ?r = "if ns = [] then [] else CHR ''/'' # join_path ns"
    let ?s = "if ms' = [] then [] else CHR ''/'' # join_path ms'"
    have okn: "CHR ''/'' \<notin> set n" "names_ok ns" and okm: "CHR ''/'' \<notin> set m" "names_ok ms'"
      using Cons.prems(1,2) Cons by (simp_all add: names_ok_def)
    have eq: "n @ ?r = m @ ?s"
      using Cons.prems(3) Cons by (simp only: join_path_Cons)
    have "n = m \<and> ?r = ?s"
      by (rule segment_unique [OF okn(1) okm(1) _ _ eq]) simp_all
    then have nm: "n = m" and rs: "?r = ?s" by simp_all
    have "ns = ms'"
    proof (cases "ns = []")
      case True
      with rs show ?thesis by (auto split: if_splits)
    next
      case False
      with rs have "ms' \<noteq> []" and "join_path ns = join_path ms'" by (auto split: if_splits)
      with Cons.IH [OF okn(2) okm(2)] show ?thesis by simp
    qed
    with nm Cons show ?thesis by simp
  qed
qed

lemma obj_get_computeLocalHashes:
  "obj_get (computeLocalHashes root) p =
   map_of (rev (filter (\<lambda>kv. fst kv \<noteq> ''__proto__'')
     (map (\<lambda>e. (fst e, computeGitBlobHash (snd e))) (scanned root root [])))) p"
  by (simp add: obj_get_def computeLocalHashes_def getAllFiles_def map_of_fold_obj_set
        scanned_def comp_def rev_map)

lemma map_of_filter_key:
  "map_of (filter (\<lambda>kv. fst kv \<noteq> k0) kvs) p = (if p = k0 then None else map_of kvs p)"
  by (induction kvs) auto

lemma map_of_rev_filter_key:
  "map_of (rev (filter (\<lambda>kv. fst kv \<noteq> k0) kvs)) p =
     (if p = k0 then None else map_of (rev kvs) p)"
  by (simp add: rev_filter map_of_filter_key)

lemma computeLocalHashes_no_proto: "''__proto__'' \<notin> set (obj_keys (computeLocalHashes root))"
proof -
  have "obj_get (computeLocalHashes root) ''__proto__'' = None"
    unfolding obj_get_computeLocalHashes map_of_rev_filter_key by (simp only: refl if_True)
  then show ?thesis
    by (simp add: obj_get_def obj_keys_def map_of_eq_None_iff)
qed

lemmas scan_defs = getAllFiles_def skip_hidden_def skip_types_def skip_node_modules_def
  skip_compiled_js_def startsWith_def endsWith_def tsPath_exists_def slice_to_minus_def
  relativePath_def path_join_def normalize_def normalizeString_def split_path_def
  norm_step_def obj_set_def Let_def

text \<open>
  Claim C3, as amended. For every directory tree (sibling names pairwise different, not
  empty, without a separator; every directory and file readable), the mapping
  \<open>computeLocalHashes\<close> produces holds exactly the regular files that no rule excludes on
  the way down, where the rules are the scanner's: a name starting with \<^verbatim>\<open>.\<close> other than
  \<^verbatim>\<open>.gitignore\<close>; a directory named \<^verbatim>\<open>types\<close>; any entry named \<^verbatim>\<open>node_modules\<close>; any
  entry, file or directory, whose name ends in \<^verbatim>\<open>.js\<close> while an entry of the same base
  name with the extension \<^verbatim>\<open>.ts\<close> is in the same directory. Excluded directories are not
  entered. The key of a file is its names joined by the separator; its value is the
  blob hash of its content. Nothing is said of a file whose path is \<^verbatim>\<open>__proto__\<close>.
\<close>

theorem computeLocalHashes_tracked:
  "wf_node (Dir root) \<Longrightarrow>
   (tracked_by excluded root ns = Some c \<and> join_path ns \<noteq> ''__proto__'' \<longrightarrow>
      obj_get (computeLocalHashes root) (join_path ns) = Some (computeGitBlobHash c)) \<and>
   (obj_get (computeLocalHashes root) p = Some h \<longrightarrow>
      (\<exists>ns' c'. tracked_by excluded root ns' = Some c' \<and> p = join_path ns' \<and>
         h = computeGitBlobHash c'))"
proof -
  assume wf: "wf_node (Dir root)"
  let ?all = "map (\<lambda>e. (fst e, computeGitBlobHash (snd e))) (scanned root root [])"
  let ?kvs = "filter (\<lambda>kv. fst kv \<noteq> ''__proto__'') ?all"
  have bwd: "\<exists>ns' c'. tracked_by excluded root ns' = Some c' \<and> q = join_path ns' \<and>
         k = computeGitBlobHash c'"
    if "obj_get (computeLocalHashes root) q = Some k" for q k
  proof -
    from that have "(q, k) \<in> set ?kvs"
      unfolding obj_get_computeLocalHashes using map_of_SomeD [of "rev ?kvs" q k] by simp
    then have "(q, k) \<in> set ?all" by simp
    then obtain c' where "(q, c') \<in> set (scanned root root [])" and k: "k = computeGitBlobHash c'"
      by auto
    then obtain ns' where t: "tracked_by excluded root ns' = Some c'"
        and q: "q = foldl relativePath [] ns'"
      using scanned_root [OF wf] by blast
    from tracked_names_ok [OF wf t] q have "q = join_path ns'"
      by (simp add: foldl_relativePath_root)
    with t k show ?thesis by blast
  qed
  have fwd: "obj_get (computeLocalHashes root) (join_path ns) = Some (computeGitBlobHash c)"
    if t: "tracked_by excluded root ns = Some c" and np: "join_path ns \<noteq> ''__proto__''"
  proof -
    have ok: "names_ok ns" by (rule tracked_names_ok [OF wf t])
    then have "(join_path ns, c) \<in> set (scanned root root [])"
      using scanned_root [OF wf, of "join_path ns" c] t foldl_relativePath_root [of ns] by auto
    then have "(join_path ns, computeGitBlobHash c) \<in> set ?all" by force
    with np have "(join_path ns, computeGitBlobHash c) \<in> set (rev ?kvs)" by simp
    then have "join_path ns \<in> fst ` set (rev ?kvs)" by (rule image_eqI [rotated]) simp
    then obtain k where g: "obj_get (computeLocalHashes root) (join_path ns) = Some k"
      unfolding obj_get_computeLocalHashes
      using map_of_eq_None_iff [of "rev ?kvs" "join_path ns"] by auto
    from bwd [OF g] obtain ns' c' where t': "tracked_by excluded root ns' = Some c'"
        and j: "join_path ns = join_path ns'" and k: "k = computeGitBlobHash c'"
      by blast
    have "ns = ns'"
      by (rule join_path_inj [OF ok tracked_names_ok [OF wf t'] j])
    with t t' have "c = c'" by simp
    with g k show ?thesis by simp
  qed
  from bwd fwd show ?thesis by blast
qed

theorem computeLocalHashes_tracked_witness:
  "wf_node (Dir tree_example) \<and>
   tracked_by excluded tree_example [''src'', ''m.ts''] = Some [3] \<and>
   obj_get (computeLocalHashes tree_example) ''src/m.ts'' = Some (computeGitBlobHash [3]) \<and>
   obj_get (computeLocalHashes tree_example) ''b.js'' = Some (computeGitBlobHash [2]) \<and>
   (\<exists>ns c. tracked_by excluded tree_example ns = Some c \<and> ''b.js'' = join_path ns \<and>
      computeGitBlobHash [2] = computeGitBlobHash c)"
proof -
  have w: "wf_node (Dir tree_example)"
    by (simp add: tree_example_def)
  have t: "tracked_by excluded tree_example [''src'', ''m.ts''] = Some [3]"
    by (simp add: tree_example_def excluded_def startsWith_def endsWith_def slice_to_minus_def)
  have g: "obj_get (computeLocalHashes tree_example) ''b.js'' = Some (computeGitBlobHash [2])"
    by (simp add: tree_example_def computeLocalHashes_def obj_get_def scan_defs)
  show ?thesis
    using w t g computeLocalHashes_tracked [OF w, of "[''src'', ''m.ts'']" "[3]" "''b.js''" "computeGitBlobHash [2]"]
    by simp
qed

text \<open>
  Claim C3 as stated fails: the file \<^verbatim>\<open>x.js/m.txt\<close> is excluded by none of the rules the
  claim lists (the directory \<^verbatim>\<open>x.js\<close> is no file), and the mapping does not have it.
\<close>

theorem computeLocalHashes_misses_file_below_js_directory:
  "tracked_by claim_excluded tree_js_dir [''x.js'', ''m.txt''] = Some [] \<and>
   join_path [''x.js'', ''m.txt''] = ''x.js/m.txt'' \<and>
   obj_get (computeLocalHashes tree_js_dir) ''x.js/m.txt'' = None"
  by (simp add: tree_js_dir_def claim_excluded_def computeLocalHashes_def obj_get_def scan_defs)

section \<open>Properties of the content hasher\<close>

lemma decimal_digits_lt: "d \<in> set (decimal_digits n) \<Longrightarrow> d < 10"
proof (induction n arbitrary: d rule: decimal_digits.induct)
  case (1 n)
  then show ?case
    by (subst (asm) (2) decimal_digits.simps) (auto split: if_splits)
qed

lemma number_toString_digits:
  "number_toString n = map (\<lambda>d. char_of (48 + d)) (decimal_digits n)"
proof (induction n rule: number_toString.induct)
  case (1 n)
  show ?case
  proof (cases "n < 10")
    case True
    then show ?thesis
      by (subst number_toString.simps, subst decimal_digits.simps) simp
  next
    case False
    with 1 show ?thesis
      by (subst number_toString.simps, subst decimal_digits.simps) simp
  qed
qed

lemma digit_byte: "d < 10 \<Longrightarrow> (of_nat (of_char (char_of (48 + d) :: char) :: nat) :: byte) = 0x30 + of_nat d"
  by simp

lemma header_eq: "Buffer_from (''blob '' @ number_toString n @ [CHR 0x00]) = spec_header n"
proof -
  have "map (\<lambda>c. (of_nat (of_char c) :: byte)) (number_toString n) =
        map (\<lambda>d. 0x30 + of_nat d) (decimal_digits n)"
    unfolding number_toString_digits map_map comp_def
    by (rule map_cong [OF refl]) (rule digit_byte [OF decimal_digits_lt])
  then show ?thesis
    by (simp add: Buffer_from_def spec_header_def)
qed

lemma length_sha1: "length (sha1 msg) = 20"
proof -
  obtain a b c d e where "foldl sha1_block sha1_init (chunks 64 (sha1_pad msg)) = (a, b, c, d, e)"
    by (metis prod_cases5)
  then show ?thesis by (simp add: sha1_def be_bytes32_def)
qed

lemma length_digest_hex: "length (digest_hex bs) = 2 * length bs"
  by (induction bs) (simp_all add: digest_hex_def hex_byte_def)

lemma hex_digit_lower: "hex_digit n \<in> set ''0123456789abcdef''"
  unfolding hex_digit_def by (rule nth_mem) simp

lemma set_digest_hex: "set (digest_hex bs) \<subseteq> set ''0123456789abcdef''"
  using hex_digit_lower by (auto simp: digest_hex_def hex_byte_def)

text \<open>
  Claim C2. For every byte buffer, \<open>computeGitBlobHash\<close> is the fingerprint of section
  4.1: the lowercase hexadecimal encoding of the SHA-1 digest of the ASCII text
  \<^verbatim>\<open>blob \<close>, the decimal byte-length, one NUL byte and the content; it has 40 characters,
  all of them lowercase hexadecimal digits. The function has no failing branch.
\<close>

theorem computeGitBlobHash_fingerprint:
  "computeGitBlobHash content = spec_fingerprint content \<and>
   length (computeGitBlobHash content) = 40 \<and>
   set (computeGitBlobHash content) \<subseteq> set ''0123456789abcdef''"
  using header_eq [of "length content"] set_digest_hex [of "sha1 (spec_header (length content) @ content)"]
  by (simp add: computeGitBlobHash_def spec_fingerprint_def length_digest_hex length_sha1 Let_def)

theorem computeGitBlobHash_fingerprint_witness:
  "length (computeGitBlobHash []) = 40 \<and> computeGitBlobHash [] = spec_fingerprint []"
  using computeGitBlobHash_fingerprint [of "[]"] by blast

section \<open>Properties of the sync command\<close>

text \<open>
  What the scanner hands to the reconciler is an object whose values are fingerprints:
  the keys are pairwise different and every value has 40 characters.
\<close>

lemma set_obj_put: "set (obj_put h k v) \<subseteq> insert (k, v) (set h)"
  by (induction h) auto

lemma values_fold_obj_set:
  "\<forall>e \<in> set h0. P (snd e) \<Longrightarrow> \<forall>f \<in> set fs. P (vf f) \<Longrightarrow>
   \<forall>e \<in> set (fold (\<lambda>f h. obj_set h (kf f) (vf f)) fs h0). P (snd e)"
proof (induction fs arbitrary: h0)
  case Nil
  then show ?case by simp
next
  case (Cons f fs)
  have "\<forall>e \<in> set (obj_set h0 (kf f) (vf f)). P (snd e)"
    using Cons.prems set_obj_put [of h0 "kf f" "vf f"] by (auto simp: obj_set_def)
  then show ?case using Cons.IH Cons.prems(2) by simp
qed

lemma length_computeGitBlobHash: "length (computeGitBlobHash content) = 40"
  by (simp add: computeGitBlobHash_def Let_def length_digest_hex length_sha1)

lemma computeLocalHashes_object:
  "distinct (obj_keys (computeLocalHashes root)) \<and>
   (\<forall>e \<in> set (computeLocalHashes root). length (snd e) = 40 \<and> snd e \<noteq> [])"
proof -
  have d: "distinct (obj_keys (computeLocalHashes root))"
    by (simp add: obj_keys_def computeLocalHashes_def distinct_fold_obj_set)
  have "\<forall>e \<in> set (computeLocalHashes root). length (snd e) = 40"
    unfolding computeLocalHashes_def
    by (rule values_fold_obj_set) (simp_all add: length_computeGitBlobHash)
  with d show ?thesis by auto
qed

lemma fold_apply_result:
  "fst (fold apply_result results st) = fold (\<lambda>r h. obj_set h (path r) (hash r)) results (fst st)"
  by (induction results arbitrary: st) (simp_all add: apply_result_def Let_def)

lemma obj_get_after_results:
  "obj_get (fold (\<lambda>r h. obj_set h (path r) (hash r)) results h0) p =
     (if p = ''__proto__'' then obj_get h0 p
      else (case new_Map (map (\<lambda>r. (path r, hash r)) results) p of
              Some h \<Rightarrow> Some h
            | None \<Rightarrow> obj_get h0 p))"
  by (simp add: obj_get_def map_of_fold_obj_set new_Map_eq map_add_def
        map_of_rev_filter_key split: option.splits)

lemma download_one_step:
  "download_one w sf d (h, l, r) =
     (download_hash w sf d h, l @ (if download_ok w d then [] else [download_warning d]), r @ [d])"
  by (simp add: download_one_def download_hash_def download_warning_def Let_def
        split: option.splits)

lemma fold_download_one:
  "fold (download_one w sf) ds (h, l, r) =
     (fold (download_hash w sf) ds h,
      l @ map download_warning (filter (\<lambda>p. \<not> download_ok w p) ds),
      r @ ds)"
proof (induction ds arbitrary: h l r)
  case Nil
  then show ?case by simp
next
  case (Cons d ds)
  show ?case
    by (simp add: Cons.IH download_one_step)
qed

lemma download_phase_eq:
  "download_phase w sf ds h =
     (fold (download_hash w sf) ds h,
      (if ds = [] then []
       else map download_warning (filter (\<lambda>p. \<not> download_ok w p) ds) @
            [Logger_success (''Downloaded '' @ number_toString (length ds) @ '' files'')] @
            map (\<lambda>file. Logger_dim (''  + '' @ file)) ds),
      ds)"
  by (simp add: download_phase_def fold_download_one Let_def)

lemma obj_get_download_hash:
  "obj_get (download_hash w sf d h) p =
     (if d = p \<and> download_ok w d \<and> p \<noteq> ''__proto__''
      then (case find (\<lambda>f. path f = d) sf of Some f \<Rightarrow> Some (hash f) | None \<Rightarrow> obj_get h p)
      else obj_get h p)"
  by (auto simp: download_hash_def obj_get_def map_of_obj_set split: option.splits)

lemma obj_get_download_other:
  "p \<notin> set ds \<or> p = ''__proto__'' \<Longrightarrow>
   obj_get (fold (download_hash w sf) ds h) p = obj_get h p"
  by (induction ds arbitrary: h) (auto simp: obj_get_download_hash)

lemma obj_get_download_hit:
  "find (\<lambda>f. path f = p) sf = Some f \<Longrightarrow> \<forall>q \<in> set ds. download_ok w q \<Longrightarrow>
   p \<noteq> ''__proto__'' \<Longrightarrow>
   obj_get (fold (download_hash w sf) ds h) p =
     (if p \<in> set ds then Some (hash f) else obj_get h p)"
proof (induction ds arbitrary: h)
  case Nil
  then show ?case by simp
next
  case (Cons d ds)
  have ih: "obj_get (fold (download_hash w sf) ds h') p =
      (if p \<in> set ds then Some (hash f) else obj_get h' p)" for h'
    using Cons.IH [OF Cons.prems(1) _ Cons.prems(3)] Cons.prems(2) by simp
  show ?case
    using Cons.prems by (auto simp: ih obj_get_download_hash)
qed

lemma finish_fields:
  "exit_code (finish w h l r) =
     (if saveLocalHashes_throws w = None \<and> updateConfig_throws w = None then 0 else 1)"
  "requested (finish w h l r) = r"
  "saved (finish w h l r) = (if saveLocalHashes_throws w = None then Some h else None)"
  by (simp_all add: finish_def Let_def split: option.splits)

lemma finish_logged:
  "saveLocalHashes_throws w = None \<Longrightarrow> updateConfig_throws w = None \<Longrightarrow>
   logged (finish w h l r) =
     l @ (if types_ok w then [] else [Logger_warn ''Could not update type definitions'']) @
     [Logger_success ''Sync complete'']"
  by (simp add: finish_def Let_def)

lemma upload_phase_ok:
  "syncFilesToServer w = Inr results \<Longrightarrow>
   \<exists>logs. upload_phase w u h0 =
     Inr (if u = [] then h0 else fold (\<lambda>r h. obj_set h (path r) (hash r)) results h0, logs)"
  by (simp add: upload_phase_def Let_def fold_apply_result)

lemma upload_phase_empty: "upload_phase w [] h0 = Inr (h0, [])"
  by (simp add: upload_phase_def)

lemma upload_phase_download_ok [simp]:
  "upload_phase (w\<lparr>download_ok := d\<rparr>) u h0 = upload_phase w u h0"
  by (simp add: upload_phase_def)

lemma sync_reaches_files:
  "isLoggedIn w \<Longrightarrow> isProjectDir w \<Longrightarrow> getLocalProject w = Some pid \<Longrightarrow>
   getProjectFiles w = Inr serverFiles \<Longrightarrow> sync w = sync_files w serverFiles"
  by (simp add: sync_def)

lemma exit_code_download_ok:
  "exit_code (sync (w\<lparr>download_ok := d\<rparr>)) = exit_code (sync w)"
  by (simp add: sync_def sync_files_def Let_def finish_fields split: option.splits sum.splits)

lemma not_warning_apply_result:
  "download_warning p \<notin> set (snd st) \<Longrightarrow> download_warning p \<notin> set (snd (apply_result r st))"
  by (auto simp: apply_result_def download_warning_def Let_def split: option.splits)

lemma not_warning_fold_apply_result:
  "download_warning p \<notin> set (snd st) \<Longrightarrow>
   download_warning p \<notin> set (snd (fold apply_result results st))"
  by (induction results arbitrary: st) (simp_all add: not_warning_apply_result)

lemma not_warning_upload_phase:
  "upload_phase w u h0 = Inr x \<Longrightarrow> download_warning p \<notin> set (snd x)"
  using not_warning_fold_apply_result [of p "(h0, [])"]
  by (auto simp: upload_phase_def Let_def download_warning_def split: if_splits sum.splits)

lemma download_warning_inj: "download_warning p = download_warning q \<longleftrightarrow> p = q"
  by (simp add: download_warning_def)

lemma warning_in_download_logs:
  "download_warning p \<in> set (fst (snd (download_phase w sf ds h))) \<longleftrightarrow>
     p \<in> set ds \<and> \<not> download_ok w p"
  by (auto simp: download_phase_eq download_warning_inj) (auto simp: download_warning_def)

lemmas reconcile_defs = findChangedFiles_def check_local_def check_server_def new_Map_def
  new_Set_def set_add_def obj_keys_def

lemma scan_world_example: "computeLocalHashes (projectDir world_example) = [(''a.ts'', computeGitBlobHash [])]"
  by (simp add: world_example_def computeLocalHashes_def scan_defs)

lemma changes_world_example:
  "findChangedFiles [(''a.ts'', x)] [\<lparr> path = ''lib.ts'', hash = ''h1'', size_bytes = 7 \<rparr>,
                              \<lparr> path = ''gone.ts'', hash = ''h2'', size_bytes = 9 \<rparr>]
   = \<lparr> upload = [''a.ts''], download = [''lib.ts'', ''gone.ts''], delete = [] \<rparr>"
  by (simp add: reconcile_defs)

lemmas sync_defs = obj_set_def sync_def sync_files_def upload_phase_def download_phase_def download_one_def
  apply_result_def finish_def Let_def

lemma changes_world_example':
  "findChangedFiles (computeLocalHashes (projectDir world_example))
     [\<lparr> path = ''lib.ts'', hash = ''h1'', size_bytes = 7 \<rparr>,
      \<lparr> path = ''gone.ts'', hash = ''h2'', size_bytes = 9 \<rparr>]
   = \<lparr> upload = [''a.ts''], download = [''lib.ts'', ''gone.ts''], delete = [] \<rparr>"
  by (simp only: scan_world_example changes_world_example)

lemma world_all_ok_simps:
  "isLoggedIn world_all_ok" "isProjectDir world_all_ok" "getLocalProject world_all_ok = Some ''p1''"
  "getProjectFiles world_all_ok = Inr [\<lparr> path = ''lib.ts'', hash = ''h1'', size_bytes = 7 \<rparr>,
                              \<lparr> path = ''gone.ts'', hash = ''h2'', size_bytes = 9 \<rparr>]"
  "projectDir world_all_ok = projectDir world_example"
  "syncFilesToServer world_all_ok =
         Inr [\<lparr> path = ''a.ts'', hash = ''h3'', compiled = Some True, errors = None \<rparr>,
              \<lparr> path = ''a.js'', hash = ''h4'', compiled = None, errors = None \<rparr>]"
  "download_ok world_all_ok q" "saveLocalHashes_throws world_all_ok = None"
  "updateConfig_throws world_all_ok = None" "types_ok world_all_ok"
  by (simp_all add: world_all_ok_def world_example_def)

lemma world_example_simps:
  "isLoggedIn world_example" "isProjectDir world_example" "getLocalProject world_example = Some ''p1''"
  "getProjectFiles world_example = Inr [\<lparr> path = ''lib.ts'', hash = ''h1'', size_bytes = 7 \<rparr>,
                              \<lparr> path = ''gone.ts'', hash = ''h2'', size_bytes = 9 \<rparr>]"
  "syncFilesToServer world_example =
         Inr [\<lparr> path = ''a.ts'', hash = ''h3'', compiled = Some True, errors = None \<rparr>,
              \<lparr> path = ''a.js'', hash = ''h4'', compiled = None, errors = None \<rparr>]"
  "download_ok world_example q = (q \<noteq> ''gone.ts'')" "saveLocalHashes_throws world_example = None"
  "updateConfig_throws world_example = None" "types_ok world_example"
  by (simp_all add: world_example_def)

text \<open>
  Claim C7. In a run that reaches the download loop (the guards pass, the manifest is
  fetched, the upload, if any, is answered) and whose later steps do not throw, a path
  whose download fails does not stop the loop: \<^verbatim>\<open>getProjectFile\<close> is called for every
  path of the download list, in order; the log has the warning of a path exactly when
  that path is in the list and its download fails; the run ends with exit code 0.
  Whatever the downloads do, the exit code is the one of the run in which they do
  something else.
\<close>

theorem sync_download_failures:
  assumes "isLoggedIn w" and "isProjectDir w" and "getLocalProject w = Some pid"
    and "getProjectFiles w = Inr serverFiles"
    and "changes = findChangedFiles (computeLocalHashes (projectDir w)) serverFiles"
    and "upload changes = [] \<or> syncFilesToServer w = Inr results"
    and "saveLocalHashes_throws w = None" and "updateConfig_throws w = None"
  shows "exit_code (sync w) = 0 \<and>
         requested (sync w) = download changes \<and>
         (download_warning p \<in> set (logged (sync w)) \<longleftrightarrow>
            p \<in> set (download changes) \<and> \<not> download_ok w p) \<and>
         exit_code (sync (w\<lparr>download_ok := d\<rparr>)) = exit_code (sync w)"
proof -
  let ?h0 = "computeLocalHashes (projectDir w)"
  have s: "sync w = sync_files w serverFiles"
    using assms(1-4) by (rule sync_reaches_files)
  show ?thesis
  proof (cases "upload changes = [] \<and> download changes = []")
    case True
    then show ?thesis
      using assms(5) by (simp add: s sync_files_def Let_def exit_code_download_ok download_warning_def)
  next
    case False
    obtain up where up: "upload_phase w (upload changes) ?h0 = Inr up"
      using assms(6) upload_phase_ok [of w results "upload changes" ?h0]
      by (auto simp: upload_phase_empty)
    let ?down = "download_phase w serverFiles (download changes) (fst up)"
    have r: "sync w = finish w (fst ?down) (snd up @ fst (snd ?down)) (snd (snd ?down))"
      using False up assms(5) by (auto simp: s sync_files_def Let_def)
    have nw: "download_warning p \<notin> set (snd up)"
      by (rule not_warning_upload_phase [OF up])
    have lg: "download_warning p \<in> set (logged (sync w)) \<longleftrightarrow>
        download_warning p \<in> set (fst (snd ?down))"
      unfolding r finish_logged [OF assms(7,8)] using nw by (auto simp: download_warning_def)
    show ?thesis
      using lg warning_in_download_logs [of p w serverFiles "download changes" "fst up"] assms(7,8)
      by (simp add: exit_code_download_ok) (simp add: r finish_fields download_phase_eq)
  qed
qed

theorem sync_download_failures_witness:
  "isLoggedIn world_example \<and> isProjectDir world_example \<and>
   saveLocalHashes_throws world_example = None \<and> updateConfig_throws world_example = None \<and>
   download (findChangedFiles (computeLocalHashes (projectDir world_example))
     [\<lparr> path = ''lib.ts'', hash = ''h1'', size_bytes = 7 \<rparr>,
      \<lparr> path = ''gone.ts'', hash = ''h2'', size_bytes = 9 \<rparr>]) = [''lib.ts'', ''gone.ts''] \<and>
   download_ok world_example ''lib.ts'' \<and>
   \<not> download_ok world_example ''gone.ts'' \<and>
   exit_code (sync world_example) = 0 \<and>
   requested (sync world_example) = [''lib.ts'', ''gone.ts''] \<and>
   download_warning ''gone.ts'' \<in> set (logged (sync world_example)) \<and>
   download_warning ''lib.ts'' \<notin> set (logged (sync world_example))"
  using sync_download_failures [of world_example "''p1''"
      "[\<lparr> path = ''lib.ts'', hash = ''h1'', size_bytes = 7 \<rparr>,
        \<lparr> path = ''gone.ts'', hash = ''h2'', size_bytes = 9 \<rparr>]"
      "findChangedFiles (computeLocalHashes (projectDir world_example))
        [\<lparr> path = ''lib.ts'', hash = ''h1'', size_bytes = 7 \<rparr>,
         \<lparr> path = ''gone.ts'', hash = ''h2'', size_bytes = 9 \<rparr>]"
      "[\<lparr> path = ''a.ts'', hash = ''h3'', compiled = Some True, errors = None \<rparr>,
        \<lparr> path = ''a.js'', hash = ''h4'', compiled = None, errors = None \<rparr>]"
      "''gone.ts''" "\<lambda>p. True"]
    sync_download_failures [of world_example "''p1''"
      "[\<lparr> path = ''lib.ts'', hash = ''h1'', size_bytes = 7 \<rparr>,
        \<lparr> path = ''gone.ts'', hash = ''h2'', size_bytes = 9 \<rparr>]"
      "findChangedFiles (computeLocalHashes (projectDir world_example))
        [\<lparr> path = ''lib.ts'', hash = ''h1'', size_bytes = 7 \<rparr>,
         \<lparr> path = ''gone.ts'', hash = ''h2'', size_bytes = 9 \<rparr>]"
      "[\<lparr> path = ''a.ts'', hash = ''h3'', compiled = Some True, errors = None \<rparr>,
        \<lparr> path = ''a.js'', hash = ''h4'', compiled = None, errors = None \<rparr>]"
      "''lib.ts''" "\<lambda>p. True"]
  by (simp add: world_example_simps changes_world_example')

text \<open>
  Claim C6, as amended. Take a run in which the upload, if there is one, is answered,
  every download succeeds and \<^verbatim>\<open>saveLocalHashes\<close> does not throw. With nothing to upload
  and nothing to download it saves nothing. Otherwise a mapping is saved, and in it: an
  uploaded path the answer names has the fingerprint of the answer's last record for
  it; a downloaded path has the fingerprint of its first record in the manifest; a path
  that is not downloaded and that the answer (if there was an upload) does not name has
  the value of the scan. Nothing is said of a downloaded path \<^verbatim>\<open>__proto__\<close>.
\<close>

theorem sync_saved_hashes:
  assumes "isLoggedIn w" and "isProjectDir w" and "getLocalProject w = Some pid"
    and "getProjectFiles w = Inr serverFiles"
    and "scan = computeLocalHashes (projectDir w)"
    and "changes = findChangedFiles scan serverFiles"
    and "upload changes = [] \<or> syncFilesToServer w = Inr results"
    and "\<forall>q \<in> set (download changes). download_ok w q"
    and "saveLocalHashes_throws w = None"
  shows "(upload changes = [] \<and> download changes = [] \<longrightarrow> saved (sync w) = None) \<and>
     (upload changes \<noteq> [] \<or> download changes \<noteq> [] \<longrightarrow>
       (\<exists>m. saved (sync w) = Some m \<and>
          (p \<in> set (upload changes) \<and>
           new_Map (map (\<lambda>r. (path r, hash r)) results) p = Some h \<longrightarrow>
             obj_get m p = Some h) \<and>
          (p \<in> set (download changes) \<and> p \<noteq> ''__proto__'' \<longrightarrow>
             (\<exists>f. find (\<lambda>f. path f = p) serverFiles = Some f \<and> obj_get m p = Some (hash f))) \<and>
          (p \<notin> set (download changes) \<and>
           (upload changes = [] \<or> p \<notin> set (map path results)) \<longrightarrow>
             obj_get m p = obj_get scan p)))"
proof -
  let ?h1 = "if upload changes = [] then scan
             else fold (\<lambda>r h. obj_set h (path r) (hash r)) results scan"
  let ?m = "fold (download_hash w serverFiles) (download changes) ?h1"
  have s: "sync w = sync_files w serverFiles"
    using assms(1-4) by (rule sync_reaches_files)
  have none: "saved (sync w) = None" if "upload changes = [] \<and> download changes = []"
    using that assms(5,6) by (simp add: s sync_files_def Let_def)
  obtain logs where up: "upload_phase w (upload changes) scan = Inr (?h1, logs)"
  proof (cases "upload changes = []")
    case True
    then show ?thesis using that by (simp add: upload_phase_empty)
  next
    case False
    with assms(7) have "syncFilesToServer w = Inr results" by simp
    from upload_phase_ok [OF this, of "upload changes" scan] that show ?thesis by blast
  qed
  have sv: "saved (sync w) = Some ?m" if "upload changes \<noteq> [] \<or> download changes \<noteq> []"
    using that assms(5,6,9) up
    by (auto simp: s sync_files_def Let_def finish_fields download_phase_eq)
  have a: "obj_get ?m p = Some h"
    if "p \<in> set (upload changes)" "new_Map (map (\<lambda>r. (path r, hash r)) results) p = Some h"
  proof -
    from that(1) have k: "p \<in> set (obj_keys scan)"
      using set_upload_subset [of scan serverFiles] assms(6) by auto
    then have np: "p \<noteq> ''__proto__''"
      using computeLocalHashes_no_proto [of "projectDir w"] assms(5) by auto
    from k have "p \<notin> set (download changes)"
      using assms(6) by (simp add: set_download)
    then have "obj_get ?m p = obj_get ?h1 p" by (simp add: obj_get_download_other)
    also have "\<dots> = Some h" using that np by (auto simp: obj_get_after_results)
    finally show ?thesis .
  qed
  have b: "\<exists>f. find (\<lambda>f. path f = p) serverFiles = Some f \<and> obj_get ?m p = Some (hash f)"
    if "p \<in> set (download changes)" "p \<noteq> ''__proto__''"
  proof -
    from that(1) have "p \<in> set (map path serverFiles)"
      using assms(6) by (simp add: set_download)
    then obtain f where f: "find (\<lambda>f. path f = p) serverFiles = Some f"
      by (cases "find (\<lambda>f. path f = p) serverFiles") (auto simp: find_None_iff)
    from obj_get_download_hit [OF f assms(8) that(2)] that(1) show ?thesis using f by simp
  qed
  have c: "obj_get ?m p = obj_get scan p"
    if "p \<notin> set (download changes)" "upload changes = [] \<or> p \<notin> set (map path results)"
  proof -
    from that(1) have "obj_get ?m p = obj_get ?h1 p" by (simp add: obj_get_download_other)
    also have "\<dots> = obj_get scan p"
      using that(2) new_Map_None [of results p] by (auto simp: obj_get_after_results)
    finally show ?thesis .
  qed
  from none sv a b c show ?thesis by blast
qed

theorem sync_saved_hashes_witness:
  "isLoggedIn world_all_ok \<and> isProjectDir world_all_ok \<and>
   syncFilesToServer world_all_ok =
         Inr [\<lparr> path = ''a.ts'', hash = ''h3'', compiled = Some True, errors = None \<rparr>,
              \<lparr> path = ''a.js'', hash = ''h4'', compiled = None, errors = None \<rparr>] \<and>
   upload (findChangedFiles (computeLocalHashes (projectDir world_all_ok))
     [\<lparr> path = ''lib.ts'', hash = ''h1'', size_bytes = 7 \<rparr>,
      \<lparr> path = ''gone.ts'', hash = ''h2'', size_bytes = 9 \<rparr>]) = [''a.ts''] \<and>
   (\<exists>m. saved (sync world_all_ok) = Some m \<and> obj_get m ''a.ts'' = Some ''h3'' \<and>
        obj_get m ''README'' = obj_get (computeLocalHashes (projectDir world_all_ok)) ''README'')"
proof -
  let ?SF = "[\<lparr> path = ''lib.ts'', hash = ''h1'', size_bytes = 7 \<rparr>,
              \<lparr> path = ''gone.ts'', hash = ''h2'', size_bytes = 9 \<rparr>]"
  let ?R = "[\<lparr> path = ''a.ts'', hash = ''h3'', compiled = Some True, errors = None \<rparr>,
             \<lparr> path = ''a.js'', hash = ''h4'', compiled = None, errors = None \<rparr>]"
  let ?scan = "computeLocalHashes (projectDir world_all_ok)"
  let ?ch = "findChangedFiles ?scan ?SF"
  have ch: "?ch = \<lparr> upload = [''a.ts''], download = [''lib.ts'', ''gone.ts''], delete = [] \<rparr>"
    by (simp only: world_all_ok_simps(5) changes_world_example')
  have h7: "upload ?ch = [] \<or> syncFilesToServer world_all_ok = Inr ?R"
    by (simp add: world_all_ok_simps(6))
  have h8: "\<forall>q \<in> set (download ?ch). download_ok world_all_ok q"
    by (simp add: world_all_ok_simps(7))
  note T = sync_saved_hashes [OF world_all_ok_simps(1) world_all_ok_simps(2)
      world_all_ok_simps(3) world_all_ok_simps(4) refl refl h7 h8 world_all_ok_simps(8)]
  have ne: "upload ?ch \<noteq> [] \<or> download ?ch \<noteq> []"
    by (simp add: ch)
  from T [of "''a.ts''" "''h3''"] ne obtain m where m: "saved (sync world_all_ok) = Some m"
    and a: "''a.ts'' \<in> set (upload ?ch) \<and>
        new_Map (map (\<lambda>r. (path r, hash r)) ?R) ''a.ts'' = Some ''h3'' \<longrightarrow>
        obj_get m ''a.ts'' = Some ''h3''"
    by blast
  have pa: "''a.ts'' \<in> set (upload ?ch)" by (simp add: ch)
  have la: "new_Map (map (\<lambda>r. (path r, hash r)) ?R) ''a.ts'' = Some ''h3''"
    by (simp add: new_Map_def)
  from a pa la have ra: "obj_get m ''a.ts'' = Some ''h3''" by blast
  from T [of "''README''" "''h3''"] ne obtain m' where m': "saved (sync world_all_ok) = Some m'"
    and c: "''README'' \<notin> set (download ?ch) \<and>
        (upload ?ch = [] \<or> ''README'' \<notin> set (map path ?R)) \<longrightarrow>
        obj_get m' ''README'' = obj_get ?scan ''README''"
    by blast
  have pc: "''README'' \<notin> set (download ?ch)" by (simp add: ch)
  have lc: "''README'' \<notin> set (map path ?R)" by simp
  from c pc lc have rc: "obj_get m' ''README'' = obj_get ?scan ''README''" by blast
  from m m' have "m' = m" by simp
  with rc have rc': "obj_get m ''README'' = obj_get ?scan ''README''" by simp
  have u: "upload ?ch = [''a.ts'']" by (simp add: ch)
  from m ra rc' have "\<exists>m. saved (sync world_all_ok) = Some m \<and> obj_get m ''a.ts'' = Some ''h3'' \<and>
        obj_get m ''README'' = obj_get ?scan ''README''"
    by blast
  with world_all_ok_simps(1) world_all_ok_simps(2) world_all_ok_simps(6) u show ?thesis
    by blast
qed

text \<open>
  Claim C6 as stated fails where the answer to the upload names a path that was not
  uploaded: \<^verbatim>\<open>a.js\<close> is in neither list and the scan has no entry for it, yet the saved
  mapping has the fingerprint the answer gave.
\<close>

theorem sync_saves_path_named_only_by_response:
  "syncFilesToServer world_all_ok =
         Inr [\<lparr> path = ''a.ts'', hash = ''h3'', compiled = Some True, errors = None \<rparr>,
              \<lparr> path = ''a.js'', hash = ''h4'', compiled = None, errors = None \<rparr>] \<and>
   findChangedFiles (computeLocalHashes (projectDir world_all_ok))
     [\<lparr> path = ''lib.ts'', hash = ''h1'', size_bytes = 7 \<rparr>,
      \<lparr> path = ''gone.ts'', hash = ''h2'', size_bytes = 9 \<rparr>]
   = \<lparr> upload = [''a.ts''], download = [''lib.ts'', ''gone.ts''], delete = [] \<rparr> \<and>
   obj_get (computeLocalHashes (projectDir world_all_ok)) ''a.js'' = None \<and>
   saved (sync world_all_ok) =
     Some [(''a.ts'', ''h3''), (''a.js'', ''h4''), (''lib.ts'', ''h1''), (''gone.ts'', ''h2'')] \<and>
   obj_get [(''a.ts'', ''h3''), (''a.js'', ''h4''), (''lib.ts'', ''h1''), (''gone.ts'', ''h2'')] ''a.js''
     = Some ''h4''"
  by (simp add: sync_defs world_all_ok_simps changes_world_example scan_world_example obj_get_def)

end
